theory Spec2Isabelle
  imports Main "HOL-Library.Word" "HOL-Library.Log_Nat"
begin

unbundle bit_operations_syntax

section \<open>Single-precision arithmetic\<close>

text \<open>
  The sketch computes gains and the beat period in C \<^verbatim>\<open>float\<close>. A finite float is a
  rational number, and every operation returns the exact result rounded to the nearest
  value with a 24-bit significand, ties to even. \<open>fl32\<close> is that rounding on the
  normal range (no overflow, no subnormals: the magnitudes of this program lie between
  \<open>2^-18\<close> and \<open>2^32\<close>). Each operation is rounded on its own (no fused multiply-add).
\<close>

definition pow2 :: "int \<Rightarrow> rat" where
  "pow2 k = (if 0 \<le> k then 2 ^ nat k else 1 / 2 ^ nat (- k))"

text \<open>The binary exponent \<open>e\<close> of a positive rational: \<open>2^e \<le> a < 2^(e+1)\<close>.\<close>

definition fexp :: "rat \<Rightarrow> int" where
  "fexp a = (if 1 \<le> a then bitlen \<lfloor>a\<rfloor> - 1 else - bitlen (\<lceil>1 / a\<rceil> - 1))"

text \<open>Round to the nearest integer, ties to even.\<close>

definition rne :: "rat \<Rightarrow> int" where
  "rne m = (let f = \<lfloor>m\<rfloor>; d = m - of_int f in
     if d < 1 / 2 then f else if 1 / 2 < d then f + 1 else if even f then f else f + 1)"

definition fl32 :: "rat \<Rightarrow> rat" where
  "fl32 x = (if x = 0 then 0 else
     (let u = pow2 (fexp \<bar>x\<bar> - 23) in of_int (rne (x / u)) * u))"

definition fadd :: "rat \<Rightarrow> rat \<Rightarrow> rat" where
  "fadd x y = fl32 (x + y)"

definition fsub :: "rat \<Rightarrow> rat \<Rightarrow> rat" where
  "fsub x y = fl32 (x - y)"

definition fmul :: "rat \<Rightarrow> rat \<Rightarrow> rat" where
  "fmul x y = fl32 (x * y)"

definition fdiv :: "rat \<Rightarrow> rat \<Rightarrow> rat" where
  "fdiv x y = fl32 (x / y)"

text \<open>Conversions \<^verbatim>\<open>(float)\<close> from \<^verbatim>\<open>uint32_t\<close>, \<^verbatim>\<open>int\<close> and \<^verbatim>\<open>int16_t\<close>.\<close>

definition float_of_u32 :: "32 word \<Rightarrow> rat" where
  "float_of_u32 w = fl32 (of_nat (unat w))"

definition float_of_int :: "int \<Rightarrow> rat" where
  "float_of_int i = fl32 (of_int i)"

definition float_of_i16 :: "16 word \<Rightarrow> rat" where
  "float_of_i16 w = fl32 (of_int (sint w))"

text \<open>
  The cast \<^verbatim>\<open>(int16_t)x\<close> of a float discards the fractional part (truncation toward
  zero). When the truncated value does not fit the 16-bit type the C++ conversion is
  undefined; the model returns \<open>None\<close> there.
\<close>

definition trunc0 :: "rat \<Rightarrow> int" where
  "trunc0 x = (if 0 \<le> x then \<lfloor>x\<rfloor> else \<lceil>x\<rceil>)"

definition cast_int16 :: "rat \<Rightarrow> 16 word option" where
  "cast_int16 x = (if - 32768 \<le> trunc0 x \<and> trunc0 x \<le> 32767
     then Some (word_of_int (trunc0 x)) else None)"

section \<open>Constants and global state of the sketch\<close>

definition SAMPLE_RATE :: nat where
  "SAMPLE_RATE = 44100"

definition CROSSFADE_MS :: nat where
  "CROSSFADE_MS = 3000"

definition CLICK_DURATION_MS :: "32 word" where
  "CLICK_DURATION_MS = 20"

definition SELECT_TIMEOUT_MS :: "32 word" where
  "SELECT_TIMEOUT_MS = 2000"

definition minBPM :: int where
  "minBPM = 30"

definition maxBPM :: int where
  "maxBPM = 240"

definition oldMin :: rat where
  "oldMin = fl32 (1 / 10)"

definition timeSignatures :: "(int \<times> int) list" where
  "timeSignatures = [(4, 4), (3, 4), (6, 8)]"

definition bufferSize :: nat where
  "bufferSize = 256"

text \<open>
  A \<^verbatim>\<open>File\<close> of the ESP32 core is a reference-counted handle to a file object that
  holds the path and the read cursor. \<open>openTab\<close> is the storage layer's table of open
  file objects, \<open>nextHandle\<close> the next fresh handle and \<open>closeLog\<close> the handles closed
  so far, in order. A \<^verbatim>\<open>File\<close> variable is \<open>None\<close> (empty) or \<open>Some h\<close>.
\<close>

record wavfile =
  path :: string
  cursor :: nat

record state =
  playingFileIndex :: int
  selectedFileIndex :: int
  fileList :: "string list"
  fileCount :: int
  waitingToPlay :: bool
  lastInputTime :: "32 word"
  blinkInterval :: "32 word"
  lastBlinkToggle :: "32 word"
  showSelectedName :: bool
  currentBPM :: int
  currentTimeSigIndex :: int
  oldFile :: "nat option"
  newFile :: "nat option"
  crossfadeActive :: bool
  crossfadeSamples :: "32 word"
  crossfadeProgress :: "32 word"
  lastClickTime :: "32 word"
  currentBeat :: int
  metronomeEnabled :: bool
  clickActive :: bool
  accentBeat :: bool
  clickStartTime :: "32 word"
  clickSampleCount :: "32 word"
  lastEncoderSW :: bool
  lastEncoderCLK :: bool
  prevFS2 :: bool
  prevFS3 :: bool
  prevFS4 :: bool
  openTab :: "(nat \<times> wavfile) list"
  nextHandle :: nat
  closeLog :: "nat list"

text \<open>
  The environment: the card's files by path (\<open>None\<close>: the open fails), and the click
  waveform \<^verbatim>\<open>(int16_t)(sinf(TWO_PI*freq*t)*expf(-t*decayRate)*baseAmplitude)\<close> as a
  function of the accent flag and the sample counter.
\<close>

record env =
  sd :: "string \<Rightarrow> 8 word list option"
  clickWave :: "bool \<Rightarrow> 32 word \<Rightarrow> 16 word"

text \<open>
  What one pass of \<^verbatim>\<open>loop()\<close> reads from outside: the pin levels, and \<^verbatim>\<open>millis()\<close> as
  seen by the footswitch handlers, by each call of \<^verbatim>\<open>generateClickSample\<close> (indexed by
  the frame), by the commit check and by \<^verbatim>\<open>updateMetronome\<close>.
\<close>

record inputs =
  fs2State :: bool
  fs3State :: bool
  fs4State :: bool
  encCLK :: bool
  encDT :: bool
  encSW :: bool
  tInput :: "32 word"
  tAudio :: "nat \<Rightarrow> 32 word"
  tSelect :: "32 word"
  tMetro :: "32 word"

section \<open>Storage layer\<close>

definition is_open :: "state \<Rightarrow> nat \<Rightarrow> bool" where
  "is_open s h = (map_of (openTab s) h \<noteq> None)"

text \<open>\<^verbatim>\<open>if (f)\<close>: the variable refers to a file object that is open.\<close>

definition file_ok :: "state \<Rightarrow> nat option \<Rightarrow> bool" where
  "file_ok s f = (case f of None \<Rightarrow> False | Some h \<Rightarrow> is_open s h)"

definition sd_open :: "env \<Rightarrow> string \<Rightarrow> state \<Rightarrow> nat option \<times> state" where
  "sd_open e p s = (case sd e p of
      None \<Rightarrow> (None, s)
    | Some d \<Rightarrow> (Some (nextHandle s),
        s\<lparr>openTab := (nextHandle s, \<lparr>path = p, cursor = 0\<rparr>) # openTab s,
          nextHandle := Suc (nextHandle s)\<rparr>))"

definition file_close :: "nat \<Rightarrow> state \<Rightarrow> state" where
  "file_close h s = (if is_open s h
     then s\<lparr>openTab := filter (\<lambda>kv. fst kv \<noteq> h) (openTab s), closeLog := closeLog s @ [h]\<rparr>
     else s)"

definition set_cursor :: "nat \<Rightarrow> nat \<Rightarrow> (nat \<times> wavfile) list \<Rightarrow> (nat \<times> wavfile) list" where
  "set_cursor h c tab = map (\<lambda>kv. if fst kv = h then (fst kv, (snd kv)\<lparr>cursor := c\<rparr>) else kv) tab"

definition file_read :: "env \<Rightarrow> nat \<Rightarrow> nat \<Rightarrow> state \<Rightarrow> 8 word list \<times> state" where
  "file_read e h n s = (case map_of (openTab s) h of
      None \<Rightarrow> ([], s)
    | Some f \<Rightarrow> (case sd e (path f) of
        None \<Rightarrow> ([], s)
      | Some d \<Rightarrow> (let bs = take n (drop (cursor f) d) in
          (bs, s\<lparr>openTab := set_cursor h (cursor f + length bs) (openTab s)\<rparr>))))"

definition file_seek :: "nat \<Rightarrow> nat \<Rightarrow> state \<Rightarrow> state" where
  "file_seek h c s = s\<lparr>openTab := set_cursor h c (openTab s)\<rparr>"

text \<open>
  Assigning to a \<^verbatim>\<open>File\<close> variable drops its reference to the file object it held; the
  object is closed by its destructor when no variable refers to it any more.
\<close>

definition release :: "nat option \<Rightarrow> state \<Rightarrow> state" where
  "release prev s = (case prev of
      None \<Rightarrow> s
    | Some h \<Rightarrow> if oldFile s = Some h then s else if newFile s = Some h then s else file_close h s)"

definition set_oldFile :: "nat option \<Rightarrow> state \<Rightarrow> state" where
  "set_oldFile v s = release (oldFile s) (s\<lparr>oldFile := v\<rparr>)"

definition set_newFile :: "nat option \<Rightarrow> state \<Rightarrow> state" where
  "set_newFile v s = release (newFile s) (s\<lparr>newFile := v\<rparr>)"

section \<open>Track start and crossfade start\<close>

definition fname_of :: "state \<Rightarrow> int \<Rightarrow> string" where
  "fname_of s i = ''/'' @ fileList s ! nat i"

text \<open>
  \<^verbatim>\<open>startPlaying\<close> and \<^verbatim>\<open>startCrossfade\<close> are given with the states they pass through,
  one per statement that touches a file; the function proper is the last of them.
\<close>

definition startPlaying_trace :: "env \<Rightarrow> int \<Rightarrow> state \<Rightarrow> state list" where
  "startPlaying_trace e fileIndex s =
    (let s1 = (if file_ok s (oldFile s) then file_close (the (oldFile s)) s else s);
         s2 = (if file_ok s1 (newFile s1) then file_close (the (newFile s1)) s1 else s1);
         s3 = s2\<lparr>crossfadeActive := False\<rparr>;
         r = sd_open e (fname_of s3 fileIndex) s3;
         s4 = snd r;
         s5 = set_newFile (fst r) s4
     in if \<not> file_ok s5 (newFile s5) then [s1, s2, s3, s4, s5]
        else (let s6 = snd (file_read e (the (newFile s5)) 44 s5);
                  s7 = s6\<lparr>playingFileIndex := fileIndex\<rparr>
              in [s1, s2, s3, s4, s5, s6, s7]))"

definition startPlaying :: "env \<Rightarrow> int \<Rightarrow> state \<Rightarrow> state" where
  "startPlaying e fileIndex s = last (startPlaying_trace e fileIndex s)"

definition crossfadeTotal :: "32 word" where
  "crossfadeTotal = word_of_nat ((SAMPLE_RATE * CROSSFADE_MS) div 1000)"

definition startCrossfade_trace :: "env \<Rightarrow> int \<Rightarrow> state \<Rightarrow> state list" where
  "startCrossfade_trace e newIndex s =
    (if \<not> file_ok s (newFile s) then startPlaying_trace e newIndex s
     else (let s1 = set_oldFile (newFile s) s;
               r = sd_open e (fname_of s1 newIndex) s1;
               s2 = snd r;
               s3 = set_newFile (fst r) s2
           in if \<not> file_ok s3 (newFile s3)
              then (let s4 = set_newFile (oldFile s3) s3;
                        s5 = set_oldFile None s4
                    in [s1, s2, s3, s4, s5])
              else (let s4 = snd (file_read e (the (newFile s3)) 44 s3);
                        s5 = s4\<lparr>crossfadeSamples := crossfadeTotal,
                                crossfadeProgress := 0,
                                crossfadeActive := True,
                                playingFileIndex := newIndex\<rparr>
                    in [s1, s2, s3, s4, s5])))"

definition startCrossfade :: "env \<Rightarrow> int \<Rightarrow> state \<Rightarrow> state" where
  "startCrossfade e newIndex s = last (startCrossfade_trace e newIndex s)"

section \<open>Metronome\<close>

definition generateClickSample :: "env \<Rightarrow> 32 word \<Rightarrow> state \<Rightarrow> 16 word \<times> state" where
  "generateClickSample e now s =
    (if \<not> clickActive s then (0, s)
     else if CLICK_DURATION_MS < now - clickStartTime s then (0, s\<lparr>clickActive := False\<rparr>)
     else (clickWave e (accentBeat s) (clickSampleCount s),
           s\<lparr>clickSampleCount := clickSampleCount s + 1\<rparr>))"

definition msPerBeat :: "state \<Rightarrow> rat" where
  "msPerBeat s = fdiv 60000 (float_of_int (currentBPM s))"

definition beatsPerMeasure :: "state \<Rightarrow> int" where
  "beatsPerMeasure s = fst (timeSignatures ! nat (currentTimeSigIndex s))"

text \<open>
  The test \<^verbatim>\<open>(nowMs-lastClickTime)>=msPerBeat\<close> converts the unsigned difference to
  float. A zero tempo would make the period infinite, so that no beat fires.
\<close>

definition beatDue :: "32 word \<Rightarrow> state \<Rightarrow> bool" where
  "beatDue nowMs s =
    (currentBPM s \<noteq> 0 \<and> msPerBeat s \<le> float_of_u32 (nowMs - lastClickTime s))"

definition updateMetronome :: "32 word \<Rightarrow> state \<Rightarrow> state" where
  "updateMetronome nowMs s =
    (if \<not> metronomeEnabled s then s
     else if beatDue nowMs s then
       (let b = currentBeat s + 1;
            b1 = (if beatsPerMeasure s < b then 1 else b)
        in s\<lparr>lastClickTime := nowMs,
             currentBeat := b1,
             accentBeat := (b1 = 1),
             clickActive := True,
             clickStartTime := nowMs,
             clickSampleCount := 0\<rparr>)
     else s)"

definition toggleMetronome :: "state \<Rightarrow> state" where
  "toggleMetronome s =
    (let s1 = s\<lparr>metronomeEnabled := \<not> metronomeEnabled s\<rparr>
     in if \<not> metronomeEnabled s1 then s1\<lparr>clickActive := False\<rparr> else s1)"

section \<open>Mixing and output\<close>

text \<open>Sample \<open>i\<close> of a buffer filled with the bytes read (little-endian).\<close>

definition sample_at :: "8 word list \<Rightarrow> nat \<Rightarrow> 16 word" where
  "sample_at bs i = (ucast (bs ! (2 * i))) OR push_bit 8 (ucast (bs ! (2 * i + 1)))"

definition ratio :: "state \<Rightarrow> rat" where
  "ratio s =
    (if crossfadeActive s \<and> 0 < crossfadeSamples s
     then (let r = fdiv (float_of_u32 (crossfadeProgress s)) (float_of_u32 (crossfadeSamples s))
           in if 1 < r then 1 else r)
     else 1)"

definition oldVol :: "state \<Rightarrow> rat" where
  "oldVol s = fsub 1 (fmul (ratio s) (fsub 1 oldMin))"

definition newVol :: "state \<Rightarrow> rat" where
  "newVol s = ratio s"

definition leftMixed :: "state \<Rightarrow> rat \<Rightarrow> rat \<Rightarrow> rat" where
  "leftMixed s oldVal newVal = fadd (fmul oldVal (oldVol s)) (fmul newVal (newVol s))"

definition bufVal :: "8 word list \<Rightarrow> nat \<Rightarrow> rat" where
  "bufVal bs i = (if i < length bs div 2 then float_of_i16 (sample_at bs i) else 0)"

text \<open>
  The frame loop. A frame is the left sample (\<open>None\<close> where the cast is undefined) and
  the right sample; \<open>clk i\<close> is \<^verbatim>\<open>millis()\<close> as read while frame \<open>i\<close> is produced.
\<close>

fun mixLoop :: "env \<Rightarrow> (nat \<Rightarrow> 32 word) \<Rightarrow> 8 word list \<Rightarrow> 8 word list \<Rightarrow> nat list \<Rightarrow> state
    \<Rightarrow> (16 word option \<times> 16 word) list \<times> state" where
  "mixLoop e clk ob nb [] s = ([], s)"
| "mixLoop e clk ob nb (i # is) s =
    (let l = cast_int16 (leftMixed s (bufVal ob i) (bufVal nb i));
         c = generateClickSample e (clk i) s;
         r = mixLoop e clk ob nb is (snd c)
     in ((l, fst c) # fst r, snd r))"

definition readOld :: "env \<Rightarrow> state \<Rightarrow> 8 word list \<times> state" where
  "readOld e s =
    (if file_ok s (oldFile s)
     then (let r = file_read e (the (oldFile s)) (bufferSize * 2) s
           in if length (fst r) = 0
              then (fst r, (set_oldFile None (file_close (the (oldFile s)) (snd r)))
                              \<lparr>crossfadeActive := False\<rparr>)
              else r)
     else ([], s))"

definition readNew :: "env \<Rightarrow> state \<Rightarrow> 8 word list \<times> state" where
  "readNew e s =
    (if file_ok s (newFile s)
     then (let r = file_read e (the (newFile s)) (bufferSize * 2) s
           in if length (fst r) = 0
              then (fst r, file_seek (the (newFile s)) 44 (snd r))
              else r)
     else ([], s))"

definition finishBlock :: "nat \<Rightarrow> state \<Rightarrow> state" where
  "finishBlock maxSamples s =
    (if crossfadeActive s
     then (let s1 = s\<lparr>crossfadeProgress := crossfadeProgress s + word_of_nat maxSamples\<rparr>
           in if crossfadeSamples s1 \<le> crossfadeProgress s1
              then (let s2 = s1\<lparr>crossfadeActive := False\<rparr>
                    in if file_ok s2 (oldFile s2)
                       then set_oldFile None (file_close (the (oldFile s2)) s2)
                       else s2)
              else s1)
     else s)"

definition readWavDataAndPlay :: "env \<Rightarrow> (nat \<Rightarrow> 32 word) \<Rightarrow> state
    \<Rightarrow> bool \<times> (16 word option \<times> 16 word) list \<times> state" where
  "readWavDataAndPlay e clk s =
    (if \<not> file_ok s (oldFile s) \<and> \<not> file_ok s (newFile s) then (False, [], s)
     else (let ro = readOld e s;
               rn = readNew e (snd ro);
               samplesOld = length (fst ro) div 2;
               samplesNew = length (fst rn) div 2;
               maxSamples = max samplesOld samplesNew
           in if maxSamples = 0 then (False, [], snd rn)
              else (let m = mixLoop e clk (fst ro) (fst rn) [0..<maxSamples] (snd rn)
                    in (True, fst m, finishBlock maxSamples (snd m)))))"

section \<open>Controls\<close>

definition cycleTimeSignature :: "state \<Rightarrow> state" where
  "cycleTimeSignature s =
    (let i = currentTimeSigIndex s + 1
     in s\<lparr>currentTimeSigIndex := (if 3 \<le> i then 0 else i)\<rparr>)"

definition handleEncoder :: "inputs \<Rightarrow> state \<Rightarrow> state" where
  "handleEncoder inp s =
    (let s1 = (if encCLK inp \<noteq> lastEncoderCLK s
               then (let b = (if encDT inp \<noteq> encCLK inp then currentBPM s + 1 else currentBPM s - 1);
                         b1 = (if b < minBPM then minBPM else b);
                         b2 = (if maxBPM < b1 then maxBPM else b1)
                     in s\<lparr>currentBPM := b2\<rparr>)
               else s);
         s2 = s1\<lparr>lastEncoderCLK := encCLK inp\<rparr>;
         s3 = (if lastEncoderSW s2 \<and> \<not> encSW inp then cycleTimeSignature s2 else s2)
     in s3\<lparr>lastEncoderSW := encSW inp\<rparr>)"

definition nextFile :: "32 word \<Rightarrow> state \<Rightarrow> state" where
  "nextFile now s =
    (let i = selectedFileIndex s + 1
     in s\<lparr>selectedFileIndex := (if fileCount s \<le> i then 0 else i),
          waitingToPlay := True,
          lastInputTime := now,
          lastBlinkToggle := now,
          showSelectedName := True\<rparr>)"

definition prevFile :: "32 word \<Rightarrow> state \<Rightarrow> state" where
  "prevFile now s =
    (let i = selectedFileIndex s - 1
     in s\<lparr>selectedFileIndex := (if i < 0 then fileCount s - 1 else i),
          waitingToPlay := True,
          lastInputTime := now,
          lastBlinkToggle := now,
          showSelectedName := True\<rparr>)"

definition handleFootswitches :: "inputs \<Rightarrow> state \<Rightarrow> state" where
  "handleFootswitches inp s =
    (let s1 = (if prevFS2 s \<and> \<not> fs2State inp then nextFile (tInput inp) s else s);
         s2 = (if \<not> prevFS2 s1 \<and> fs2State inp then nextFile (tInput inp) s1 else s1);
         s3 = (if prevFS3 s2 \<and> \<not> fs3State inp then prevFile (tInput inp) s2 else s2);
         s4 = (if \<not> prevFS3 s3 \<and> fs3State inp then prevFile (tInput inp) s3 else s3);
         s5 = (if prevFS4 s4 \<and> \<not> fs4State inp then toggleMetronome s4 else s4);
         s6 = (if \<not> prevFS4 s5 \<and> fs4State inp then toggleMetronome s5 else s5)
     in s6\<lparr>prevFS2 := fs2State inp, prevFS3 := fs3State inp, prevFS4 := fs4State inp\<rparr>)"

section \<open>The main loop\<close>

definition afterAudio :: "bool \<Rightarrow> state \<Rightarrow> state" where
  "afterAudio ok s =
    (if \<not> ok then (if file_ok s (newFile s) then file_seek (the (newFile s)) 44 s else s) else s)"

definition commitStep :: "env \<Rightarrow> 32 word \<Rightarrow> state \<Rightarrow> state" where
  "commitStep e now s =
    (if waitingToPlay s
     then (if SELECT_TIMEOUT_MS \<le> now - lastInputTime s
           then (startCrossfade e (selectedFileIndex s) s)\<lparr>waitingToPlay := False\<rparr>
           else (if blinkInterval s \<le> now - lastBlinkToggle s
                 then s\<lparr>lastBlinkToggle := now, showSelectedName := \<not> showSelectedName s\<rparr>
                 else s))
     else s)"

definition loop :: "env \<Rightarrow> inputs \<Rightarrow> state \<Rightarrow> (16 word option \<times> 16 word) list \<times> state" where
  "loop e inp s =
    (let s1 = handleFootswitches inp s;
         s2 = handleEncoder inp s1;
         r = readWavDataAndPlay e (tAudio inp) s2;
         s3 = afterAudio (fst r) (snd (snd r));
         s4 = commitStep e (tSelect inp) s3
     in (fst (snd r), updateMetronome (tMetro inp) s4))"

text \<open>
  The globals as initialised, for a track list found on the card and the pin levels
  sampled at boot; \<open>setupSketch\<close> then starts track 0.
\<close>

definition initial :: "string list \<Rightarrow> inputs \<Rightarrow> state" where
  "initial fl inp =
    \<lparr>playingFileIndex = 0, selectedFileIndex = 0, fileList = fl, fileCount = int (length fl),
     waitingToPlay = False, lastInputTime = 0, blinkInterval = 200, lastBlinkToggle = 0,
     showSelectedName = True, currentBPM = 120, currentTimeSigIndex = 0,
     oldFile = None, newFile = None, crossfadeActive = False, crossfadeSamples = 0,
     crossfadeProgress = 0, lastClickTime = 0, currentBeat = 0, metronomeEnabled = True,
     clickActive = False, accentBeat = False, clickStartTime = 0, clickSampleCount = 0,
     lastEncoderSW = encSW inp, lastEncoderCLK = encCLK inp,
     prevFS2 = fs2State inp, prevFS3 = fs3State inp, prevFS4 = fs4State inp,
     openTab = [], nextHandle = 0, closeLog = []\<rparr>"

definition setupSketch :: "env \<Rightarrow> string list \<Rightarrow> inputs \<Rightarrow> state" where
  "setupSketch e fl inp = startPlaying e 0 (initial fl inp)"

text \<open>A run of the sketch: the states after each pass of the loop, starting state first.\<close>

fun run :: "env \<Rightarrow> inputs list \<Rightarrow> state \<Rightarrow> state list" where
  "run e [] s = [s]"
| "run e (i # is) s = s # run e is (snd (loop e i s))"

section \<open>Invariants and test fixtures\<close>

text \<open>While the metronome is disabled no click voice is active.\<close>

definition click_inv :: "state \<Rightarrow> bool" where
  "click_inv s = (if metronomeEnabled s then True else \<not> clickActive s)"

text \<open>A small card, a waveform and idle inputs, for concrete runs.\<close>

definition demoCard :: "string \<Rightarrow> 8 word list option" where
  "demoCard p =
    (if p = ''/a.wav'' then Some (replicate 44 0 @ [1, 0, 2, 0, 3, 0])
     else if p = ''/b.wav'' then Some (replicate 44 0 @ [1, 0, 255, 127])
     else None)"

definition demoEnv :: env where
  "demoEnv = \<lparr>sd = demoCard, clickWave = (\<lambda>a n. if a then 4000 else 3000)\<rparr>"

definition idle :: inputs where
  "idle = \<lparr>fs2State = True, fs3State = True, fs4State = True,
     encCLK = True, encDT = True, encSW = True,
     tInput = 0, tAudio = (\<lambda>i. 0), tSelect = 0, tMetro = 0\<rparr>"

definition turnUp :: inputs where
  "turnUp = idle\<lparr>encCLK := False, encDT := True\<rparr>"

definition pressFS4 :: inputs where
  "pressFS4 = idle\<lparr>fs4State := False\<rparr>"

text \<open>The sketch after boot on the small card, playing track 0.\<close>

definition demoStart :: state where
  "demoStart = setupSketch demoEnv [''a.wav'', ''b.wav''] idle"

text \<open>The fields of the selection logic.\<close>

definition sel_view :: "state \<Rightarrow> int \<times> bool \<times> 32 word \<times> string list \<times> int" where
  "sel_view s = (selectedFileIndex s, waitingToPlay s, lastInputTime s, fileList s, fileCount s)"

text \<open>The state at the commit check of a pass.\<close>

definition beforeCommit :: "env \<Rightarrow> inputs \<Rightarrow> state \<Rightarrow> state" where
  "beforeCommit e inp s =
    (let r = readWavDataAndPlay e (tAudio inp) (handleEncoder inp (handleFootswitches inp s))
     in afterAudio (fst r) (snd (snd r)))"







text \<open>
  Modelled from the claim's words, for comparison with the cast of the sketch: the sum
  rounded to the nearest integer and clipped to the signed 16-bit range.
\<close>

definition spec_round_clip :: "rat \<Rightarrow> 16 word" where
  "spec_round_clip x = word_of_int (max (- 32768) (min 32767 (round x)))"

text \<open>Two tracks of two samples, and a crossfade from the first to the second at 75%.\<close>

definition fadeCard :: "string \<Rightarrow> 8 word list option" where
  "fadeCard p =
    (if p = ''/old.wav'' then Some (replicate 44 0 @ [0, 0, 255, 127])
     else if p = ''/new.wav'' then Some (replicate 44 0 @ [1, 0, 255, 127])
     else None)"

definition fadeEnv :: env where
  "fadeEnv = \<lparr>sd = fadeCard, clickWave = (\<lambda>a n. 0)\<rparr>"

definition fadeState :: state where
  "fadeState = (startCrossfade fadeEnv 1 (setupSketch fadeEnv [''old.wav'', ''new.wav''] idle))
     \<lparr>crossfadeProgress := 99225\<rparr>"

text \<open>
  Modelled from the claim's words, for comparison with the block the sketch writes: the
  samples read, padded with zero samples to the size of the cycle's block.
\<close>

definition pad_silence :: "nat \<Rightarrow> 16 word list \<Rightarrow> 16 word list" where
  "pad_silence n xs = xs @ replicate (n - length xs) 0"

text \<open>A crossfade from track 0 to track 1 of the small card, just started.\<close>

definition demoFade :: state where
  "demoFade = startCrossfade demoEnv 1 demoStart"

text \<open>The same crossfade started after track 0 has been read to its end.\<close>

definition demoFadeAtEnd :: state where
  "demoFadeAtEnd = startCrossfade demoEnv 1 (snd (snd (readWavDataAndPlay demoEnv (\<lambda>i. 0) demoStart)))"

text \<open>Track 0 alone, read to its end.\<close>

definition demoAtEnd :: state where
  "demoAtEnd = snd (snd (readWavDataAndPlay demoEnv (\<lambda>i. 0) demoStart))"

text \<open>
  The handles that the \<^verbatim>\<open>File\<close> variables refer to, together with a temporary
  (the value returned by \<^verbatim>\<open>SD.open\<close> before it is assigned).
\<close>

definition refs :: "state \<Rightarrow> nat option \<Rightarrow> nat list" where
  "refs s tmp = remdups (concat (map (case_option [] (\<lambda>h. [h])) [oldFile s, newFile s, tmp]))"

text \<open>
  The storage invariant: open file objects have distinct handles, each is referred to by
  a variable (or the temporary), was allocated before \<open>nextHandle\<close> and has not been
  closed; every handle is closed at most once.
\<close>

definition inv_tmp :: "nat option \<Rightarrow> state \<Rightarrow> bool" where
  "inv_tmp tmp s =
    (distinct (map fst (openTab s)) \<and>
     list_all (\<lambda>h. h \<in> set (refs s tmp) \<and> h < nextHandle s \<and> h \<notin> set (closeLog s))
       (map fst (openTab s)) \<and>
     list_all (\<lambda>h. h < nextHandle s) (closeLog s) \<and>
     distinct (closeLog s))"

definition store_inv :: "state \<Rightarrow> bool" where
  "store_inv s = inv_tmp None s"

text \<open>The part of the state that the storage invariant reads.\<close>

definition store_view :: "state \<Rightarrow> (nat \<times> wavfile) list \<times> nat option \<times> nat option \<times> nat \<times> nat list" where
  "store_view s = (openTab s, oldFile s, newFile s, nextHandle s, closeLog s)"

definition keys :: "state \<Rightarrow> nat set" where
  "keys s = fst ` set (openTab s)"

text \<open>The booted sketch with a given meter, tempo, beat counter and time of the last beat.\<close>

definition beatState :: "int \<Rightarrow> int \<Rightarrow> int \<Rightarrow> 32 word \<Rightarrow> state" where
  "beatState m bpm b t =
    demoStart\<lparr>currentTimeSigIndex := m, currentBPM := bpm, currentBeat := b, lastClickTime := t\<rparr>"








section \<open>Rounding lemmas\<close>

lemma rne_of_int: "rne (of_int m) = m"
  by (simp add: rne_def)

lemma rne_ge_floor: "\<lfloor>m\<rfloor> \<le> rne m"
  by (simp add: rne_def Let_def)

lemma pow2_pos: "0 < pow2 k"
  by (simp add: pow2_def)

lemma fexp_of_int: "1 \<le> j \<Longrightarrow> fexp (of_int j) = bitlen j - 1"
  by (simp add: fexp_def)

lemma fl32_eq:
  "x \<noteq> 0 \<Longrightarrow> fexp \<bar>x\<bar> = e \<Longrightarrow> pow2 (e - 23) = u \<Longrightarrow> fl32 x = of_int (rne (x / u)) * u"
  by (simp add: fl32_def Let_def)

lemma fl32_of_int_small:
  assumes "\<bar>i\<bar> < 2 ^ 24"
  shows "fl32 (of_int i) = of_int i"
proof (cases "i = 0")
  case True
  then show ?thesis by (simp add: fl32_def)
next
  case False
  define L where "L = bitlen \<bar>i\<bar>"
  have ipos: "0 < \<bar>i\<bar>" using False by simp
  have L24: "L \<le> 24" unfolding L_def using assms by (simp add: bitlen_le_iff_power)
  have L1: "1 \<le> L" unfolding L_def using ipos bitlen_eq_zero_iff[of "\<bar>i\<bar>"] bitlen_nonneg[of "\<bar>i\<bar>"] by linarith
  have abs_eq: "\<bar>(of_int i :: rat)\<bar> = of_int \<bar>i\<bar>" by simp
  have one_le: "(1::rat) \<le> of_int \<bar>i\<bar>" using ipos by linarith
  have fe: "fexp \<bar>(of_int i :: rat)\<bar> = L - 1"
    using fexp_of_int[of "\<bar>i\<bar>"] ipos by (simp add: L_def)
  define k where "k = nat (24 - L)"
  have u: "pow2 (L - 1 - 23) = 1 / 2 ^ k"
  proof (cases "L = 24")
    case True
    then show ?thesis by (simp add: pow2_def k_def)
  next
    case False
    with L24 have "L - 1 - 23 < 0" by simp
    then show ?thesis by (simp add: pow2_def k_def)
  qed
  have q: "(of_int i :: rat) / (1 / 2 ^ k) = of_int (i * 2 ^ k)" by simp
  have nz: "(of_int i :: rat) \<noteq> 0" using False by simp
  have "fl32 (of_int i) = of_int (rne (of_int i / (1 / 2 ^ k))) * (1 / 2 ^ k)"
    by (rule fl32_eq[OF nz fe u])
  also have "\<dots> = of_int (i * 2 ^ k) * (1 / 2 ^ k)"
    unfolding q rne_of_int ..
  also have "\<dots> = of_int i" by simp
  finally show ?thesis .
qed

lemma fl32_of_nat_large:
  assumes "2 ^ 24 \<le> n"
  shows "2 ^ 24 \<le> fl32 (of_nat n)"
proof -
  define L where "L = bitlen (int n)"
  have npos: "0 < int n" using assms by (smt (verit) of_nat_0_less_iff zero_less_power not_less zero_less_numeral le_trans linorder_not_le)
  have L25: "25 \<le> L" unfolding L_def using assms bitlen_ge_iff_power[of 25 "int n"]
    by (simp add: le_nat_iff) 
  have one_le: "(1::rat) \<le> of_nat n" using npos by simp
  have fe: "fexp \<bar>(of_nat n :: rat)\<bar> = L - 1"
    using fexp_of_int[of "int n"] npos by (simp add: L_def)
  define k where "k = nat (L - 24)"
  have u: "pow2 (L - 1 - 23) = 2 ^ k" using L25 by (simp add: pow2_def k_def)
  have lo: "(2::int) ^ nat (L - 1) \<le> int n" using bitlen_bounds[OF npos] by (simp add: L_def)
  have split: "nat (L - 1) = 23 + k" using L25 by (simp add: k_def)
  have "(2::rat) ^ 23 * 2 ^ k \<le> of_int (int n)"
    using lo unfolding split by (metis of_int_le_iff of_int_numeral of_int_power power_add)
  then have "(2::rat) ^ 23 \<le> of_nat n / 2 ^ k" by (simp add: pos_le_divide_eq)
  then have "(2::int) ^ 23 \<le> \<lfloor>(of_nat n :: rat) / 2 ^ k\<rfloor>" by (simp add: le_floor_iff)
  then have r: "(2::int) ^ 23 \<le> rne (of_nat n / 2 ^ k)" using rne_ge_floor[of "of_nat n / 2 ^ k"] by linarith
  have nz: "(of_nat n :: rat) \<noteq> 0" using npos by simp
  have "fl32 (of_nat n) = of_int (rne (of_nat n / 2 ^ k)) * 2 ^ k"
    by (rule fl32_eq[OF nz fe u])
  moreover have "(2::rat) ^ 23 * 2 ^ k \<le> of_int (rne (of_nat n / 2 ^ k)) * 2 ^ k"
    using r by (simp add: mult_right_mono)
  moreover have "(2::rat) ^ 24 \<le> 2 ^ 23 * 2 ^ k"
  proof -
    have "1 \<le> k" using L25 by (simp add: k_def)
    then have "(2::rat) ^ 1 \<le> 2 ^ k" by (intro power_increasing) simp_all
    then show ?thesis by simp
  qed
  ultimately show ?thesis by linarith
qed


lemma pow2_powi: "pow2 k = 2 powi k"
proof (cases "0 \<le> k")
  case True
  then show ?thesis by (simp add: pow2_def power_int_def)
next
  case False
  have "(1::rat) / 2 ^ nat (- k) = inverse 2 ^ nat (- k)"
    by (simp add: inverse_eq_divide power_one_over)
  with False show ?thesis by (simp only: pow2_def power_int_def if_False)
qed

lemma pow2_mono: "i \<le> j \<Longrightarrow> pow2 i \<le> pow2 j"
  unfolding pow2_powi by (rule power_int_increasing) simp_all

lemma rne_err: "\<bar>of_int (rne m) - m\<bar> \<le> 1 / 2"
proof -
  have "of_int \<lfloor>m\<rfloor> \<le> m" "m < of_int \<lfloor>m\<rfloor> + 1" by linarith+
  then show ?thesis by (simp add: rne_def Let_def abs_le_iff) 
qed

lemma fl32_err:
  assumes "x \<noteq> 0" and "fexp \<bar>x\<bar> = e"
  shows "\<bar>fl32 x - x\<bar> \<le> pow2 (e - 23) / 2"
proof -
  define u where "u = pow2 (e - 23)"
  have upos: "0 < u" by (simp add: u_def pow2_pos)
  have "fl32 x = of_int (rne (x / u)) * u"
    by (rule fl32_eq[OF assms]) (simp add: u_def)
  then have "fl32 x - x = (of_int (rne (x / u)) - x / u) * u"
    using upos by (simp add: algebra_simps)
  then have "\<bar>fl32 x - x\<bar> = \<bar>of_int (rne (x / u)) - x / u\<bar> * u"
    using upos by (simp add: abs_mult)
  also have "\<dots> \<le> (1 / 2) * u"
    using rne_err[of "x / u"] upos by (intro mult_right_mono) simp_all
  finally show ?thesis by (simp add: u_def)
qed

lemma fexp_le:
  assumes "1 \<le> x" and "x < 2 ^ n"
  shows "fexp x \<le> int n - 1"
proof -
  have "\<lfloor>x\<rfloor> < 2 ^ n" using assms(2) by (simp add: floor_less_iff)
  then have "bitlen \<lfloor>x\<rfloor> \<le> int n" by (simp add: bitlen_le_iff_power)
  then show ?thesis using assms(1) by (simp add: fexp_def)
qed

lemma fl32_err_2048:
  assumes "1 \<le> x" and "x < 2048"
  shows "\<bar>fl32 x - x\<bar> \<le> 1 / 16384"
proof -
  have "fexp x \<le> int 11 - 1" using assms by (intro fexp_le) simp_all
  then have "pow2 (fexp x - 23) \<le> pow2 (- 13)" by (intro pow2_mono) simp
  also have "pow2 (- 13) = 1 / 8192" by (simp add: pow2_def)
  finally have "pow2 (fexp x - 23) / 2 \<le> 1 / 16384" by simp
  moreover have "\<bar>fl32 x - x\<bar> \<le> pow2 (fexp x - 23) / 2"
    using assms(1) by (intro fl32_err) simp_all
  ultimately show ?thesis by linarith
qed

lemma period_bracket:
  assumes "30 \<le> b" and "b \<le> 240"
  defines "K \<equiv> (60000 + b - 1) div b"
  shows "of_int (K - 1) < fdiv 60000 (float_of_int b) \<and> fdiv 60000 (float_of_int b) \<le> of_int K"
    and "(K - 1) * b < 60000 \<and> 60000 \<le> K * b" and "K \<le> 2000"
proof -
  have bpos: "0 < b" using assms by simp
  have fb: "float_of_int b = of_int b"
    unfolding float_of_int_def using assms by (intro fl32_of_int_small) simp
  define M where "M = 60000 + b - 1"
  have KM: "K = M div b" by (simp add: K_def M_def)
  have Meq: "K * b + M mod b = M" unfolding KM by (rule div_mult_mod_eq)
  have Mlo: "0 \<le> M mod b" and Mhi: "M mod b < b" using bpos by simp_all
  have up: "60000 \<le> K * b" using Meq Mhi by (simp add: M_def)
  have lo: "(K - 1) * b < 60000" using Meq Mlo by (simp add: M_def algebra_simps)
  show "(K - 1) * b < 60000 \<and> 60000 \<le> K * b" using lo up by simp
  show K2000: "K \<le> 2000"
  proof (rule ccontr)
    assume "\<not> K \<le> 2000"
    then have "2000 \<le> K - 1" by simp
    then have "2000 * 30 \<le> (K - 1) * b" using assms(1) by (intro mult_mono) simp_all
    with lo show False by simp
  qed
  have Kpos: "1 \<le> K"
  proof (rule ccontr)
    assume "\<not> 1 \<le> K"
    then have "K \<le> 0" by simp
    then have "K * b \<le> 0" using bpos by (simp add: mult_le_0_iff)
    with up show False by simp
  qed
  define q :: rat where "q = 60000 / of_int b"
  have c: "fdiv 60000 (float_of_int b) = fl32 q" by (simp add: fdiv_def fb q_def)
  have qb: "q * of_int b = 60000" using bpos by (simp add: q_def)
  show "of_int (K - 1) < fdiv 60000 (float_of_int b) \<and> fdiv 60000 (float_of_int b) \<le> of_int K"
  proof (cases "60000 = K * b")
    case True
    then have eq: "(60000::rat) = of_int K * of_int b"
      by (metis of_int_mult of_int_numeral)
    have bnz: "(of_int b :: rat) \<noteq> 0" using bpos by simp
    have "q = of_int K * of_int b / of_int b" unfolding q_def eq ..
    also have "\<dots> = of_int K" using bnz by simp
    finally have "q = of_int K" .
    moreover have "fl32 (of_int K) = of_int K"
      using K2000 Kpos by (intro fl32_of_int_small) simp
    ultimately show ?thesis by (simp add: c)
  next
    case False
    with up lo have i1: "(K - 1) * b + 1 \<le> 60000" and i2: "60000 \<le> K * b - 1" by simp_all
    have brat: "(0::rat) < of_int b" using bpos by simp
    have "of_int ((K - 1) * b + 1) \<le> q * (of_int b :: rat)"
      unfolding qb using i1 by (metis of_int_le_iff of_int_numeral)
    then have "(of_int (K - 1) + 1 / of_int b) * (of_int b :: rat) \<le> q * of_int b"
      using bpos by (simp add: algebra_simps)
    then have q1: "of_int (K - 1) + 1 / of_int b \<le> q"
      using brat by (simp only: mult_le_cancel_right_pos)
    have "q * (of_int b :: rat) \<le> of_int (K * b - 1)"
      unfolding qb using i2 by (metis of_int_le_iff of_int_numeral)
    then have "q * of_int b \<le> (of_int K - 1 / of_int b) * (of_int b :: rat)"
      using bpos by (simp add: algebra_simps)
    then have q2: "q \<le> of_int K - 1 / of_int b"
      using brat by (simp only: mult_le_cancel_right_pos)
    have "(of_int b :: rat) \<le> 240" using assms by simp
    then have inv: "(1::rat) / 240 \<le> 1 / of_int b"
      using brat by (simp add: field_simps)
    have "(of_int b :: rat) \<le> 60000" using assms by simp
    then have q_ge1: "1 \<le> q" unfolding q_def using brat by (simp add: le_divide_eq)
    have "q \<le> of_int K" using q2 inv by linarith
    also have "(of_int K :: rat) \<le> 2000" using K2000 by simp
    finally have q_lt: "q < 2048" by simp
    have "\<bar>fl32 q - q\<bar> \<le> 1 / 16384" using q_ge1 q_lt by (rule fl32_err_2048)
    then have e1: "fl32 q - q \<le> 1 / 16384" and e2: "q - fl32 q \<le> 1 / 16384"
      by linarith+
    have km: "(of_int (K - 1) :: rat) = of_int K - 1" by simp
    show ?thesis unfolding c km using e1 e2 q1[unfolded km] q2 inv by linarith
  qed
qed

lemma beat_compare_nat:
  assumes "30 \<le> b" and "b \<le> 240"
  shows "(fdiv 60000 (float_of_int b) \<le> fl32 (of_nat n)) = (60000 \<le> int n * b)"
proof -
  define K where "K = (60000 + b - 1) div b"
  define c where "c = fdiv 60000 (float_of_int b)"
  note pb = period_bracket[OF assms, folded K_def c_def]
  have bpos: "0 < b" using assms by simp
  show ?thesis
  proof (cases "n < 2 ^ 24")
    case True
    then have "\<bar>int n\<bar> < 2 ^ 24" by simp
    then have "fl32 (of_int (int n)) = of_int (int n)"
      by (rule fl32_of_int_small)
    then have fw: "fl32 (of_nat n) = of_int (int n)" by simp
    show ?thesis
    proof (cases "K \<le> int n")
      case True
      then have "(of_int K :: rat) \<le> of_int (int n)" by (simp only: of_int_le_iff)
      then have "c \<le> fl32 (of_nat n)" using pb(1) fw by linarith
      moreover have "K * b \<le> int n * b" using True bpos by (simp add: mult_right_mono)
      ultimately show ?thesis using pb(2) unfolding c_def by linarith
    next
      case False
      then have le: "int n \<le> K - 1" by simp
      then have "(of_int (int n) :: rat) \<le> of_int (K - 1)" by (simp only: of_int_le_iff)
      then have "\<not> c \<le> fl32 (of_nat n)" using pb(1) fw by linarith
      moreover have "int n * b \<le> (K - 1) * b" using le bpos by (simp add: mult_right_mono)
      ultimately show ?thesis using pb(2) unfolding c_def by linarith
    qed
  next
    case False
    then have big: "2 ^ 24 \<le> n" by simp
    then have "(2::rat) ^ 24 \<le> fl32 (of_nat n)"
      by (rule fl32_of_nat_large)
    moreover have "(of_int K :: rat) \<le> 2000" using pb(3) by simp
    moreover have "(2000::rat) \<le> 2 ^ 24" by simp
    ultimately have "c \<le> fl32 (of_nat n)" using pb(1) by linarith
    moreover have "60000 \<le> int n * b"
    proof -
      have "(2::int) ^ 24 \<le> int n" using big by simp
      then have "2 ^ 24 * 30 \<le> int n * b"
        using assms by (intro mult_mono) simp_all
      then show ?thesis by simp
    qed
    ultimately show ?thesis unfolding c_def by simp
  qed
qed

lemma beat_compare:
  assumes "30 \<le> b" and "b \<le> 240"
  shows "(fdiv 60000 (float_of_int b) \<le> float_of_u32 w) = (60000 \<le> int (unat w) * b)"
  unfolding float_of_u32_def by (rule beat_compare_nat[OF assms])


section \<open>Fields untouched by the storage and audio paths\<close>

lemma file_close_fields:
  "currentBPM (file_close h s) = currentBPM s"
  "metronomeEnabled (file_close h s) = metronomeEnabled s"
  "clickActive (file_close h s) = clickActive s"
  by (simp_all add: file_close_def)

lemma release_fields:
  "currentBPM (release p s) = currentBPM s"
  "metronomeEnabled (release p s) = metronomeEnabled s"
  "clickActive (release p s) = clickActive s"
  by (simp_all add: release_def file_close_fields split: option.splits)

lemma set_file_fields:
  "currentBPM (set_oldFile v s) = currentBPM s"
  "metronomeEnabled (set_oldFile v s) = metronomeEnabled s"
  "clickActive (set_oldFile v s) = clickActive s"
  "currentBPM (set_newFile v s) = currentBPM s"
  "metronomeEnabled (set_newFile v s) = metronomeEnabled s"
  "clickActive (set_newFile v s) = clickActive s"
  by (simp_all add: set_oldFile_def set_newFile_def release_fields)

lemma sd_open_fields:
  "currentBPM (snd (sd_open e p s)) = currentBPM s"
  "metronomeEnabled (snd (sd_open e p s)) = metronomeEnabled s"
  "clickActive (snd (sd_open e p s)) = clickActive s"
  by (simp_all add: sd_open_def split: option.splits)

lemma file_read_fields:
  "currentBPM (snd (file_read e h n s)) = currentBPM s"
  "metronomeEnabled (snd (file_read e h n s)) = metronomeEnabled s"
  "clickActive (snd (file_read e h n s)) = clickActive s"
  by (simp_all add: file_read_def Let_def split: option.splits)

lemma file_seek_fields:
  "currentBPM (file_seek h c s) = currentBPM s"
  "metronomeEnabled (file_seek h c s) = metronomeEnabled s"
  "clickActive (file_seek h c s) = clickActive s"
  by (simp_all add: file_seek_def)

lemmas prim_fields = file_close_fields release_fields set_file_fields sd_open_fields
  file_read_fields file_seek_fields

lemma startPlaying_fields:
  "currentBPM (startPlaying e i s) = currentBPM s"
  "metronomeEnabled (startPlaying e i s) = metronomeEnabled s"
  "clickActive (startPlaying e i s) = clickActive s"
  by (simp_all add: startPlaying_def startPlaying_trace_def Let_def prim_fields)

lemma startCrossfade_fields:
  "currentBPM (startCrossfade e i s) = currentBPM s"
  "metronomeEnabled (startCrossfade e i s) = metronomeEnabled s"
  "clickActive (startCrossfade e i s) = clickActive s"
  using startPlaying_fields[of e i s]
  by (simp_all add: startCrossfade_def startCrossfade_trace_def startPlaying_def Let_def prim_fields)

lemma generateClickSample_fields:
  "currentBPM (snd (generateClickSample e t s)) = currentBPM s"
  "metronomeEnabled (snd (generateClickSample e t s)) = metronomeEnabled s"
  by (simp_all add: generateClickSample_def)

lemma generateClickSample_quiet:
  "\<not> clickActive s \<Longrightarrow> generateClickSample e t s = (0, s)"
  by (simp add: generateClickSample_def)

lemma mixLoop_fields:
  "currentBPM (snd (mixLoop e clk ob nb is s)) = currentBPM s"
  "metronomeEnabled (snd (mixLoop e clk ob nb is s)) = metronomeEnabled s"
  by (induction "is" arbitrary: s) (simp_all add: Let_def generateClickSample_fields)

lemma mixLoop_quiet:
  "\<not> clickActive s \<Longrightarrow> snd (mixLoop e clk ob nb is s) = s \<and> list_all (\<lambda>f. snd f = 0) (fst (mixLoop e clk ob nb is s))"
  by (induction "is" arbitrary: s) (simp_all add: Let_def generateClickSample_quiet)

lemma readOld_fields:
  "currentBPM (snd (readOld e s)) = currentBPM s"
  "metronomeEnabled (snd (readOld e s)) = metronomeEnabled s"
  "clickActive (snd (readOld e s)) = clickActive s"
  by (simp_all add: readOld_def Let_def prim_fields)

lemma readNew_fields:
  "currentBPM (snd (readNew e s)) = currentBPM s"
  "metronomeEnabled (snd (readNew e s)) = metronomeEnabled s"
  "clickActive (snd (readNew e s)) = clickActive s"
  by (simp_all add: readNew_def Let_def prim_fields)

lemma finishBlock_fields:
  "currentBPM (finishBlock n s) = currentBPM s"
  "metronomeEnabled (finishBlock n s) = metronomeEnabled s"
  "clickActive (finishBlock n s) = clickActive s"
  by (simp_all add: finishBlock_def Let_def prim_fields)

lemma readWavDataAndPlay_fields:
  "currentBPM (snd (snd (readWavDataAndPlay e clk s))) = currentBPM s"
  "metronomeEnabled (snd (snd (readWavDataAndPlay e clk s))) = metronomeEnabled s"
  by (simp_all add: readWavDataAndPlay_def Let_def readOld_fields readNew_fields
      finishBlock_fields mixLoop_fields)

lemma readWavDataAndPlay_quiet:
  assumes "\<not> clickActive s"
  shows "\<not> clickActive (snd (snd (readWavDataAndPlay e clk s)))"
    and "list_all (\<lambda>f. snd f = 0) (fst (snd (readWavDataAndPlay e clk s)))"
proof -
  have q: "\<not> clickActive (snd (readNew e (snd (readOld e s))))"
    using assms by (simp add: readOld_fields readNew_fields)
  show "\<not> clickActive (snd (snd (readWavDataAndPlay e clk s)))"
    using assms q by (simp add: readWavDataAndPlay_def Let_def finishBlock_fields mixLoop_quiet)
  show "list_all (\<lambda>f. snd f = 0) (fst (snd (readWavDataAndPlay e clk s)))"
    using q by (simp add: readWavDataAndPlay_def Let_def mixLoop_quiet)
qed

lemma afterAudio_fields:
  "currentBPM (afterAudio ok s) = currentBPM s"
  "metronomeEnabled (afterAudio ok s) = metronomeEnabled s"
  "clickActive (afterAudio ok s) = clickActive s"
  by (simp_all add: afterAudio_def prim_fields)

lemma commitStep_fields:
  "currentBPM (commitStep e t s) = currentBPM s"
  "metronomeEnabled (commitStep e t s) = metronomeEnabled s"
  "clickActive (commitStep e t s) = clickActive s"
  by (simp_all add: commitStep_def startCrossfade_fields)

lemma updateMetronome_bpm:
  "currentBPM (updateMetronome t s) = currentBPM s"
  by (simp add: updateMetronome_def Let_def)

lemma handleFootswitches_bpm:
  "currentBPM (handleFootswitches inp s) = currentBPM s"
  by (simp add: handleFootswitches_def Let_def nextFile_def prevFile_def toggleMetronome_def)

lemma handleEncoder_bpm:
  "currentBPM (handleEncoder inp s) =
    (if encCLK inp \<noteq> lastEncoderCLK s
     then min maxBPM (max minBPM (currentBPM s + (if encDT inp \<noteq> encCLK inp then 1 else - 1)))
     else currentBPM s)"
  by (simp add: handleEncoder_def Let_def cycleTimeSignature_def minBPM_def maxBPM_def)

lemma loop_bpm:
  "currentBPM (snd (loop e inp s)) = currentBPM (handleEncoder inp (handleFootswitches inp s))"
  by (simp add: loop_def Let_def updateMetronome_bpm commitStep_fields afterAudio_fields
        readWavDataAndPlay_fields)

lemma loop_bpm_range:
  assumes "30 \<le> currentBPM s \<and> currentBPM s \<le> 240"
  shows "30 \<le> currentBPM (snd (loop e inp s)) \<and> currentBPM (snd (loop e inp s)) \<le> 240"
  using assms
  by (simp add: loop_bpm handleEncoder_bpm handleFootswitches_bpm minBPM_def maxBPM_def)

lemma run_bpm_range:
  "30 \<le> currentBPM s \<and> currentBPM s \<le> 240 \<Longrightarrow>
   list_all (\<lambda>s'. 30 \<le> currentBPM s' \<and> currentBPM s' \<le> 240) (run e inps s)"
proof (induction inps arbitrary: s)
  case Nil
  then show ?case by simp
next
  case (Cons i inps)
  from Cons.prems have "30 \<le> currentBPM (snd (loop e i s)) \<and> currentBPM (snd (loop e i s)) \<le> 240"
    by (rule loop_bpm_range)
  then show ?case using Cons.prems Cons.IH by simp
qed

lemma toggleMetronome_inv: "click_inv (toggleMetronome s)"
  by (simp add: click_inv_def toggleMetronome_def Let_def)

lemma handleFootswitches_inv: "click_inv s \<Longrightarrow> click_inv (handleFootswitches inp s)"
  by (simp add: click_inv_def handleFootswitches_def Let_def nextFile_def prevFile_def toggleMetronome_def)

lemma handleEncoder_inv: "click_inv s \<Longrightarrow> click_inv (handleEncoder inp s)"
  by (simp add: click_inv_def handleEncoder_def Let_def cycleTimeSignature_def)

lemma handleEncoder_enabled: "metronomeEnabled (handleEncoder inp s) = metronomeEnabled s"
  by (simp add: handleEncoder_def Let_def cycleTimeSignature_def)

lemma updateMetronome_inv: "click_inv s \<Longrightarrow> click_inv (updateMetronome t s)"
  by (simp add: click_inv_def updateMetronome_def Let_def)

lemma audio_inv:
  assumes "click_inv s"
  shows "click_inv (snd (snd (readWavDataAndPlay e clk s)))"
proof (cases "metronomeEnabled s")
  case True
  then show ?thesis by (simp add: click_inv_def readWavDataAndPlay_fields)
next
  case False
  with assms have "\<not> clickActive s" by (simp add: click_inv_def)
  then have "\<not> clickActive (snd (snd (readWavDataAndPlay e clk s)))"
    by (rule readWavDataAndPlay_quiet)
  then show ?thesis by (simp add: click_inv_def)
qed

lemma afterAudio_inv: "click_inv s \<Longrightarrow> click_inv (afterAudio ok s)"
  by (simp add: click_inv_def afterAudio_fields)

lemma commitStep_inv: "click_inv s \<Longrightarrow> click_inv (commitStep e t s)"
  by (simp add: click_inv_def commitStep_fields)

lemma loop_inv: "click_inv s \<Longrightarrow> click_inv (snd (loop e inp s))"
  by (simp add: loop_def Let_def updateMetronome_inv commitStep_inv afterAudio_inv audio_inv
      handleEncoder_inv handleFootswitches_inv)

lemma run_inv: "click_inv s \<Longrightarrow> list_all click_inv (run e inps s)"
  by (induction inps arbitrary: s) (simp_all add: loop_inv)

lemma loop_silent:
  assumes "click_inv s" and "\<not> metronomeEnabled (handleFootswitches inp s)"
  shows "list_all (\<lambda>f. snd f = 0) (fst (loop e inp s))"
proof -
  let ?s2 = "handleEncoder inp (handleFootswitches inp s)"
  have "click_inv ?s2" using assms(1) by (simp add: handleEncoder_inv handleFootswitches_inv)
  moreover have "\<not> metronomeEnabled ?s2" using assms(2) by (simp add: handleEncoder_enabled)
  ultimately have "\<not> clickActive ?s2" by (simp add: click_inv_def)
  then have "list_all (\<lambda>f. snd f = 0) (fst (snd (readWavDataAndPlay e (tAudio inp) ?s2)))"
    by (rule readWavDataAndPlay_quiet)
  then show ?thesis by (simp add: loop_def Let_def)
qed



section \<open>Concrete runs\<close>

lemma demoStart_simp:
  "demoStart = \<lparr>playingFileIndex = 0, selectedFileIndex = 0,
    fileList = [''a.wav'', ''b.wav''], fileCount = 2, waitingToPlay = False,
    lastInputTime = 0, blinkInterval = 200, lastBlinkToggle = 0,
    showSelectedName = True, currentBPM = 120, currentTimeSigIndex = 0,
    oldFile = None, newFile = Some 0, crossfadeActive = False,
    crossfadeSamples = 0, crossfadeProgress = 0, lastClickTime = 0,
    currentBeat = 0, metronomeEnabled = True, clickActive = False,
    accentBeat = False, clickStartTime = 0, clickSampleCount = 0,
    lastEncoderSW = True, lastEncoderCLK = True, prevFS2 = True,
    prevFS3 = True, prevFS4 = True,
    openTab = [(0, \<lparr>path = ''/a.wav'', cursor = 44\<rparr>)], nextHandle = 1,
    closeLog = []\<rparr>"
  by (simp add: demoStart_def setupSketch_def startPlaying_def startPlaying_trace_def initial_def idle_def
    Let_def file_ok_def is_open_def sd_open_def demoEnv_def demoCard_def fname_of_def set_newFile_def release_def file_read_def set_cursor_def)

lemma demo_block:
  "fst (loop demoEnv pressFS4 (demoStart\<lparr>clickActive := True\<rparr>)) = [(Some 1, 0), (Some 2, 0), (Some 3, 0)]"
  by code_simp

section \<open>Beat clock\<close>

lemma beatsPerMeasure_cases:
  assumes "0 \<le> currentTimeSigIndex s" and "currentTimeSigIndex s < 3"
  shows "beatsPerMeasure s = 4 \<or> beatsPerMeasure s = 3 \<or> beatsPerMeasure s = 6"
proof -
  from assms have "currentTimeSigIndex s = 0 \<or> currentTimeSigIndex s = 1 \<or> currentTimeSigIndex s = 2"
    by linarith
  then show ?thesis by (auto simp: beatsPerMeasure_def timeSignatures_def)
qed

lemma beatDue_exact:
  assumes "30 \<le> currentBPM s" and "currentBPM s \<le> 240"
  shows "beatDue now s = ((60000 / of_int (currentBPM s) :: rat) \<le> of_nat (unat (now - lastClickTime s)))"
proof -
  have bpos: "(0::rat) < of_int (currentBPM s)" using assms by simp
  have "beatDue now s = (60000 \<le> int (unat (now - lastClickTime s)) * currentBPM s)"
    using assms by (simp add: beatDue_def msPerBeat_def beat_compare del: of_nat_unat)
  also have "\<dots> = ((of_int 60000 :: rat) \<le> of_int (int (unat (now - lastClickTime s)) * currentBPM s))"
    by (simp only: of_int_le_iff)
  also have "\<dots> = ((60000 / of_int (currentBPM s) :: rat) \<le> of_nat (unat (now - lastClickTime s)))"
    using bpos by (simp add: pos_divide_le_eq del: of_nat_unat)
  finally show ?thesis .
qed

lemma sel_view_prims:
  "sel_view (file_close h s) = sel_view s"
  "sel_view (release p s) = sel_view s"
  "sel_view (set_oldFile v s) = sel_view s"
  "sel_view (set_newFile v s) = sel_view s"
  "sel_view (snd (sd_open e q s)) = sel_view s"
  "sel_view (snd (file_read e h n s)) = sel_view s"
  "sel_view (file_seek h c s) = sel_view s"
  by (simp_all add: sel_view_def file_close_def release_def set_oldFile_def set_newFile_def
      sd_open_def file_read_def file_seek_def Let_def split: option.splits)

lemma sel_view_upd:
  "sel_view (s\<lparr>crossfadeActive := b\<rparr>) = sel_view s"
  "sel_view (s\<lparr>playingFileIndex := i\<rparr>) = sel_view s"
  "sel_view (s\<lparr>crossfadeSamples := w\<rparr>) = sel_view s"
  "sel_view (s\<lparr>crossfadeProgress := w\<rparr>) = sel_view s"
  "sel_view (s\<lparr>clickActive := b\<rparr>) = sel_view s"
  "sel_view (s\<lparr>clickSampleCount := w\<rparr>) = sel_view s"
  by (simp_all add: sel_view_def)

lemma played_prims:
  "playingFileIndex (file_close h s) = playingFileIndex s"
  "playingFileIndex (release p s) = playingFileIndex s"
  "playingFileIndex (set_oldFile v s) = playingFileIndex s"
  "playingFileIndex (set_newFile v s) = playingFileIndex s"
  "playingFileIndex (snd (sd_open e q s)) = playingFileIndex s"
  "playingFileIndex (snd (file_read e h n s)) = playingFileIndex s"
  "playingFileIndex (file_seek h c s) = playingFileIndex s"
  by (simp_all add: file_close_def release_def set_oldFile_def set_newFile_def
      sd_open_def file_read_def file_seek_def Let_def split: option.splits)

lemma nextHandle_prims:
  "nextHandle (file_close h s) = nextHandle s"
  "nextHandle (release p s) = nextHandle s"
  "nextHandle (set_oldFile v s) = nextHandle s"
  "nextHandle (set_newFile v s) = nextHandle s"
  "nextHandle (snd (file_read e h n s)) = nextHandle s"
  "nextHandle (file_seek h c s) = nextHandle s"
  by (simp_all add: file_close_def release_def set_oldFile_def set_newFile_def
      file_read_def file_seek_def Let_def split: option.splits)

lemma sd_open_fail: "sd e q = None \<Longrightarrow> sd_open e q s = (None, s)"
  by (simp add: sd_open_def)

lemma sd_open_ok:
  "sd e q = Some d \<Longrightarrow> sd_open e q s =
     (Some (nextHandle s),
      s\<lparr>openTab := (nextHandle s, \<lparr>path = q, cursor = 0\<rparr>) # openTab s,
        nextHandle := Suc (nextHandle s)\<rparr>)"
  by (simp add: sd_open_def)

lemma file_ok_None: "\<not> file_ok s None"
  by (simp add: file_ok_def)

text \<open>A handle just opened and assigned to \<open>newFile\<close> is open.\<close>

lemma is_open_file_close: "is_open (file_close h s) k = (is_open s k \<and> k \<noteq> h)"
proof -
  have "(map_of (filter (\<lambda>kv. fst kv \<noteq> h) tab) k \<noteq> None) = (map_of tab k \<noteq> None \<and> k \<noteq> h)" for tab :: "(nat \<times> wavfile) list"
    by (induction tab) auto
  then show ?thesis by (auto simp: file_close_def is_open_def)
qed

lemma is_open_release:
  "is_open (release p s) k = (is_open s k \<and> (p = Some k \<longrightarrow> oldFile s = Some k \<or> newFile s = Some k))"
  by (auto simp: release_def is_open_file_close split: option.splits)

lemma vars_file_close:
  "oldFile (file_close h s) = oldFile s" "newFile (file_close h s) = newFile s"
  by (simp_all add: file_close_def)

lemma vars_release:
  "oldFile (release p s) = oldFile s" "newFile (release p s) = newFile s"
  by (simp_all add: release_def vars_file_close split: option.splits)

lemma vars_set:
  "oldFile (set_oldFile v s) = v" "newFile (set_oldFile v s) = newFile s"
  "newFile (set_newFile v s) = v" "oldFile (set_newFile v s) = oldFile s"
  by (simp_all add: set_oldFile_def set_newFile_def vars_release)

lemma is_open_upd:
  "is_open (s\<lparr>oldFile := v\<rparr>) k = is_open s k"
  "is_open (s\<lparr>newFile := v\<rparr>) k = is_open s k"
  "is_open (s\<lparr>crossfadeActive := b\<rparr>) k = is_open s k"
  "is_open (s\<lparr>playingFileIndex := i\<rparr>) k = is_open s k"
  by (simp_all add: is_open_def)

lemma is_open_set_newFile:
  "is_open (set_newFile v s) k =
    (is_open s k \<and> (newFile s = Some k \<longrightarrow> oldFile s = Some k \<or> v = Some k))"
  by (simp add: set_newFile_def is_open_release is_open_upd)

lemma is_open_set_oldFile:
  "is_open (set_oldFile v s) k =
    (is_open s k \<and> (oldFile s = Some k \<longrightarrow> v = Some k \<or> newFile s = Some k))"
  by (simp add: set_oldFile_def is_open_release is_open_upd)

lemma file_ok_set_newFile_fresh:
  "is_open s h \<Longrightarrow> file_ok (set_newFile (Some h) s) (newFile (set_newFile (Some h) s))"
  by (simp add: file_ok_def vars_set is_open_set_newFile)

lemma is_open_sd_open:
  "is_open (snd (sd_open e q s)) k = (is_open s k \<or> (sd e q \<noteq> None \<and> k = nextHandle s))"
  by (auto simp: sd_open_def is_open_def split: option.splits)

lemma open_assign_ok:
  "file_ok (set_newFile (fst (sd_open e q s)) (snd (sd_open e q s)))
     (newFile (set_newFile (fst (sd_open e q s)) (snd (sd_open e q s)))) = (sd e q \<noteq> None)"
proof (cases "sd e q")
  case None
  then show ?thesis by (simp add: sd_open_fail vars_set file_ok_None)
next
  case (Some d)
  have "is_open (snd (sd_open e q s)) (nextHandle s)"
    using Some by (simp add: is_open_sd_open)
  moreover have "fst (sd_open e q s) = Some (nextHandle s)"
    using Some by (simp add: sd_open_ok)
  ultimately show ?thesis using Some by (simp add: file_ok_set_newFile_fresh)
qed

lemma fname_of_prims:
  "fname_of (file_close h s) i = fname_of s i"
  "fname_of (set_oldFile v s) i = fname_of s i"
  "fname_of (set_newFile v s) i = fname_of s i"
  "fname_of (s\<lparr>crossfadeActive := b\<rparr>) i = fname_of s i"
  by (simp_all add: fname_of_def file_close_def set_oldFile_def set_newFile_def release_def
      split: option.splits)

lemma nextHandle_sd_open:
  "nextHandle (snd (sd_open e q s)) = (if sd e q = None then nextHandle s else Suc (nextHandle s))"
  by (simp add: sd_open_def split: option.splits)

lemma startPlaying_sel:
  "sel_view (startPlaying e i s) = sel_view s"
  "playingFileIndex (startPlaying e i s) = (if sd e (fname_of s i) = None then playingFileIndex s else i)"
  "nextHandle (startPlaying e i s) = (if sd e (fname_of s i) = None then nextHandle s else Suc (nextHandle s))"
  by (auto simp: startPlaying_def startPlaying_trace_def Let_def open_assign_ok fname_of_prims
      sel_view_prims sel_view_upd played_prims nextHandle_prims nextHandle_sd_open)

lemma startCrossfade_sel:
  "sel_view (startCrossfade e i s) = sel_view s"
  "playingFileIndex (startCrossfade e i s) = (if sd e (fname_of s i) = None then playingFileIndex s else i)"
  "nextHandle (startCrossfade e i s) = (if sd e (fname_of s i) = None then nextHandle s else Suc (nextHandle s))"
  using startPlaying_sel[of e i s]
  by (auto simp: startCrossfade_def startCrossfade_trace_def startPlaying_def Let_def
      open_assign_ok fname_of_prims
      sel_view_prims sel_view_upd played_prims nextHandle_prims nextHandle_sd_open)

lemma map_of_filter_other:
  "k \<noteq> h \<Longrightarrow> map_of (filter (\<lambda>kv. fst kv \<noteq> h) tab) k = map_of tab k"
  by (induction tab) auto

lemma lookup_file_close:
  "k \<noteq> h \<Longrightarrow> map_of (openTab (file_close h s)) k = map_of (openTab s) k"
  by (simp add: file_close_def map_of_filter_other)

lemma lookup_release:
  assumes "p \<noteq> Some k \<or> oldFile s = Some k \<or> newFile s = Some k"
  shows "map_of (openTab (release p s)) k = map_of (openTab s) k"
proof (cases p)
  case None
  then show ?thesis by (simp add: release_def)
next
  case (Some h)
  show ?thesis
  proof (cases "h = k")
    case True
    with Some assms show ?thesis by (auto simp: release_def)
  next
    case False
    with Some show ?thesis by (simp add: release_def lookup_file_close)
  qed
qed

lemma xfade_prims:
  "crossfadeActive (file_close h s) = crossfadeActive s"
  "crossfadeSamples (file_close h s) = crossfadeSamples s"
  "crossfadeProgress (file_close h s) = crossfadeProgress s"
  "crossfadeActive (release p s) = crossfadeActive s"
  "crossfadeSamples (release p s) = crossfadeSamples s"
  "crossfadeProgress (release p s) = crossfadeProgress s"
  "crossfadeActive (set_oldFile v s) = crossfadeActive s"
  "crossfadeSamples (set_oldFile v s) = crossfadeSamples s"
  "crossfadeProgress (set_oldFile v s) = crossfadeProgress s"
  "crossfadeActive (set_newFile v s) = crossfadeActive s"
  "crossfadeSamples (set_newFile v s) = crossfadeSamples s"
  "crossfadeProgress (set_newFile v s) = crossfadeProgress s"
  by (simp_all add: file_close_def release_def set_oldFile_def set_newFile_def split: option.splits)

lemma startCrossfade_fail:
  assumes "file_ok s (newFile s)" and "sd e (fname_of s i) = None"
  shows "newFile (startCrossfade e i s) = newFile s"
    and "oldFile (startCrossfade e i s) = None"
    and "map_of (openTab (startCrossfade e i s)) (the (newFile s)) = map_of (openTab s) (the (newFile s))"
    and "crossfadeActive (startCrossfade e i s) = crossfadeActive s"
    and "crossfadeSamples (startCrossfade e i s) = crossfadeSamples s"
    and "crossfadeProgress (startCrossfade e i s) = crossfadeProgress s"
proof -
  obtain b where b: "newFile s = Some b" using assms(1) by (auto simp: file_ok_def split: option.splits)
  let ?s1 = "set_oldFile (newFile s) s"
  let ?s3 = "set_newFile None ?s1"
  let ?s4 = "set_newFile (oldFile ?s3) ?s3"
  let ?s5 = "set_oldFile None ?s4"
  have fn: "fname_of ?s1 i = fname_of s i" by (simp add: fname_of_prims)
  have tr: "startCrossfade e i s = ?s5"
    using assms
    by (simp add: startCrossfade_def startCrossfade_trace_def Let_def fn sd_open_fail vars_set file_ok_None)
  show "newFile (startCrossfade e i s) = newFile s" by (simp add: tr vars_set)
  show "oldFile (startCrossfade e i s) = None" by (simp add: tr vars_set)
  show "crossfadeActive (startCrossfade e i s) = crossfadeActive s" by (simp add: tr xfade_prims)
  show "crossfadeSamples (startCrossfade e i s) = crossfadeSamples s" by (simp add: tr xfade_prims)
  show "crossfadeProgress (startCrossfade e i s) = crossfadeProgress s" by (simp add: tr xfade_prims)
  have l1: "map_of (openTab ?s1) b = map_of (openTab s) b"
    by (simp add: set_oldFile_def lookup_release b)
  have l3: "map_of (openTab ?s3) b = map_of (openTab ?s1) b"
    using vars_set(1)[of "newFile s" s]
    by (simp add: set_newFile_def[of None] lookup_release b)
  have l4: "map_of (openTab ?s4) b = map_of (openTab ?s3) b"
    using vars_set(3)[of None ?s1]
    by (simp add: set_newFile_def[of "oldFile ?s3"] release_def)
  have l5: "map_of (openTab ?s5) b = map_of (openTab ?s4) b"
    using vars_set(3)[of "oldFile ?s3" ?s3] vars_set(4)[of None ?s1] vars_set(1)[of "newFile s" s]
    by (simp add: set_oldFile_def[of None] lookup_release b)
  have tb: "the (newFile s) = b" by (simp add: b)
  show "map_of (openTab (startCrossfade e i s)) (the (newFile s)) = map_of (openTab s) (the (newFile s))"
    unfolding tr tb by (rule trans[OF l5 trans[OF l4 trans[OF l3 l1]]])
qed











lemma sel_viewD:
  assumes "sel_view s' = sel_view s"
  shows "selectedFileIndex s' = selectedFileIndex s" and "waitingToPlay s' = waitingToPlay s"
    and "lastInputTime s' = lastInputTime s" and "fileList s' = fileList s"
    and "fileCount s' = fileCount s"
  using assms by (simp_all add: sel_view_def)

lemma loop_commit: "snd (loop e inp s) = updateMetronome (tMetro inp) (commitStep e (tSelect inp) (beforeCommit e inp s))"
  by (simp add: loop_def beforeCommit_def Let_def)


lemma commitStep_sel:
  "selectedFileIndex (commitStep e now s) = selectedFileIndex s"
  "lastInputTime (commitStep e now s) = lastInputTime s"
  "waitingToPlay (commitStep e now s) =
     (waitingToPlay s \<and> \<not> SELECT_TIMEOUT_MS \<le> now - lastInputTime s)"
  "playingFileIndex (commitStep e now s) =
     (if waitingToPlay s \<and> SELECT_TIMEOUT_MS \<le> now - lastInputTime s \<and>
         sd e (fname_of s (selectedFileIndex s)) \<noteq> None
      then selectedFileIndex s else playingFileIndex s)"
  "nextHandle (commitStep e now s) =
     (if waitingToPlay s \<and> SELECT_TIMEOUT_MS \<le> now - lastInputTime s \<and>
         sd e (fname_of s (selectedFileIndex s)) \<noteq> None
      then Suc (nextHandle s) else nextHandle s)"
  using sel_viewD[OF startCrossfade_sel(1), of e "selectedFileIndex s" s]
  by (auto simp: commitStep_def startCrossfade_sel)


text \<open>Unfolding everything evaluates the sketch on concrete inputs.\<close>

lemmas sketch_defs = handleFootswitches_def handleEncoder_def nextFile_def prevFile_def
  toggleMetronome_def cycleTimeSignature_def readWavDataAndPlay_def readOld_def readNew_def
  finishBlock_def afterAudio_def commitStep_def loop_def updateMetronome_def beatDue_def
  msPerBeat_def beatsPerMeasure_def timeSignatures_def generateClickSample_def
  startCrossfade_def startCrossfade_trace_def startPlaying_def startPlaying_trace_def
  file_ok_def is_open_def sd_open_def file_close_def file_read_def file_seek_def set_cursor_def
  release_def set_oldFile_def set_newFile_def fname_of_def crossfadeTotal_def
  SAMPLE_RATE_def CROSSFADE_MS_def CLICK_DURATION_MS_def SELECT_TIMEOUT_MS_def minBPM_def
  maxBPM_def bufferSize_def ratio_def oldVol_def newVol_def leftMixed_def bufVal_def
  sample_at_def cast_int16_def trunc0_def oldMin_def
  fadd_def fsub_def fmul_def fdiv_def float_of_u32_def float_of_int_def float_of_i16_def
  fl32_def rne_def fexp_def pow2_def setupSketch_def initial_def



lemmas fade_defs = fadeCard_def fadeEnv_def fadeState_def idle_def

lemma floor_rat_numeral:
  "\<lfloor>numeral a / numeral b :: rat\<rfloor> = numeral a div numeral b"
  "\<lfloor>- (numeral a / numeral b) :: rat\<rfloor> = - numeral a div numeral b"
  "\<lceil>numeral a / numeral b :: rat\<rceil> = - (- numeral a div numeral b)"
  "\<lceil>- (numeral a / numeral b) :: rat\<rceil> = - (numeral a div numeral b)"
proof -
  show "\<lfloor>numeral a / numeral b :: rat\<rfloor> = numeral a div numeral b"
    by (metis floor_divide_of_int_eq of_int_numeral)
  show "\<lfloor>- (numeral a / numeral b) :: rat\<rfloor> = - numeral a div numeral b"
    by (metis divide_minus_left floor_divide_of_int_eq of_int_neg_numeral of_int_numeral)
  show "\<lceil>numeral a / numeral b :: rat\<rceil> = - (- numeral a div numeral b)"
    by (metis ceiling_def divide_minus_left floor_divide_of_int_eq of_int_neg_numeral of_int_numeral)
  show "\<lceil>- (numeral a / numeral b) :: rat\<rceil> = - (numeral a div numeral b)"
    by (metis ceiling_def floor_divide_of_int_eq minus_minus of_int_numeral)
qed

lemmas sketch_eval = sketch_defs compute_bitlen floor_rat_numeral

lemma upt_2: "[0..<2] = [0, Suc 0]"
  by (simp add: upt_rec)

lemma leftMixed_click:
  "leftMixed (snd (generateClickSample e t s)) = leftMixed s"
proof -
  have "ratio (snd (generateClickSample e t s)) = ratio s"
    by (auto simp: generateClickSample_def ratio_def Let_def)
  then show ?thesis
    by (intro ext) (simp add: leftMixed_def oldVol_def newVol_def)
qed

lemma mixLoop_left:
  "map fst (fst (mixLoop e clk ob nb is s)) =
     map (\<lambda>i. cast_int16 (leftMixed s (bufVal ob i) (bufVal nb i))) is"
  by (induction "is" arbitrary: s) (simp_all add: Let_def leftMixed_click)

lemma trunc0_bounds:
  "\<bar>of_int (trunc0 x)\<bar> \<le> \<bar>x\<bar>" "\<bar>x - of_int (trunc0 x)\<bar> < 1"
proof -
  have f: "of_int \<lfloor>x\<rfloor> \<le> x" "x < of_int \<lfloor>x\<rfloor> + 1" by linarith+
  have c: "x \<le> of_int \<lceil>x\<rceil>" "of_int \<lceil>x\<rceil> < x + 1" by linarith+
  show "\<bar>of_int (trunc0 x)\<bar> \<le> \<bar>x\<bar>"
  proof (cases "0 \<le> x")
    case True
    then have "0 \<le> \<lfloor>x\<rfloor>" by simp
    then have "(0::rat) \<le> of_int \<lfloor>x\<rfloor>" by simp
    with True f show ?thesis by (simp add: trunc0_def)
  next
    case False
    then have "\<lceil>x\<rceil> \<le> 0" by (simp add: ceiling_le_iff)
    then have "(of_int \<lceil>x\<rceil> :: rat) \<le> 0" by simp
    with False c show ?thesis by (simp add: trunc0_def)
  qed
  show "\<bar>x - of_int (trunc0 x)\<bar> < 1"
  proof (cases "0 \<le> x")
    case True
    then have "trunc0 x = \<lfloor>x\<rfloor>" by (simp add: trunc0_def)
    then show ?thesis using f by linarith
  next
    case False
    then have "trunc0 x = \<lceil>x\<rceil>" by (simp add: trunc0_def)
    then show ?thesis using c by linarith
  qed
qed

lemma trunc0_range:
  "(- 32768 \<le> trunc0 x \<and> trunc0 x \<le> 32767) = (- 32769 < x \<and> x < 32768)"
proof (cases "0 \<le> x")
  case True
  then have "0 \<le> \<lfloor>x\<rfloor>" by simp
  moreover have "(\<lfloor>x\<rfloor> \<le> 32767) = (x < 32768)"
    using floor_less_iff[of x 32768] by simp
  ultimately show ?thesis using True by (simp add: trunc0_def)
next
  case False
  then have "\<lceil>x\<rceil> \<le> 0" by (simp add: ceiling_le_iff)
  moreover have "(- 32768 \<le> \<lceil>x\<rceil>) = (- 32769 < x)"
    using less_ceiling_iff[of "- 32769" x] by simp
  ultimately show ?thesis using False by (simp add: trunc0_def)
qed

lemma sint_cast:
  assumes "- 32768 \<le> k" and "k \<le> 32767"
  shows "sint (word_of_int k :: 16 word) = k"
proof -
  have "signed_take_bit 15 k = k"
    using assms by (intro signed_take_bit_int_eq_self) simp_all
  then show ?thesis by (simp add: sint_sbintrunc')
qed

lemmas demo_defs = demoStart_def demoEnv_def demoCard_def idle_def demoFade_def demoFadeAtEnd_def
  demoAtEnd_def

lemma upt_3: "[0..<3] = [0, Suc 0, 2]"
  by (simp add: upt_rec)

lemma map_of_set_cursor:
  "map_of (set_cursor h c tab) k =
    (if k = h then map_option (\<lambda>f. f\<lparr>cursor := c\<rparr>) (map_of tab h) else map_of tab k)"
  by (induction tab) (auto simp: set_cursor_def)

lemma file_read_bytes:
  assumes "map_of (openTab s) h = Some f" and "sd e (path f) = Some d"
  shows "fst (file_read e h n s) = take n (drop (cursor f) d)"
    and "map_of (openTab (snd (file_read e h n s))) h =
           Some (f\<lparr>cursor := cursor f + length (take n (drop (cursor f) d))\<rparr>)"
  using assms by (simp_all add: file_read_def Let_def map_of_set_cursor)

lemma file_read_length: "length (fst (file_read e h n s)) \<le> n"
  by (simp add: file_read_def Let_def split: option.splits)

lemma readOld_length: "length (fst (readOld e s)) \<le> 2 * bufferSize"
  using file_read_length[of e "the (oldFile s)" "bufferSize * 2" s]
  by (simp add: readOld_def Let_def)

lemma readNew_length: "length (fst (readNew e s)) \<le> 2 * bufferSize"
  using file_read_length[of e "the (newFile s)" "bufferSize * 2" s]
  by (simp add: readNew_def Let_def)

lemma readOld_bytes:
  "fst (readOld e s) =
     (if file_ok s (oldFile s) then fst (file_read e (the (oldFile s)) (bufferSize * 2) s) else [])"
  by (simp add: readOld_def Let_def)

lemma readNew_bytes:
  "fst (readNew e s) =
     (if file_ok s (newFile s) then fst (file_read e (the (newFile s)) (bufferSize * 2) s) else [])"
  by (simp add: readNew_def Let_def)

lemma readOld_not_ok: "\<not> file_ok s (oldFile s) \<Longrightarrow> readOld e s = ([], s)"
  by (simp add: readOld_def)

lemma readNew_not_ok: "\<not> file_ok s (newFile s) \<Longrightarrow> readNew e s = ([], s)"
  by (simp add: readNew_def)

lemma mixLoop_length: "length (fst (mixLoop e clk ob nb is s)) = length is"
  by (induction "is" arbitrary: s) (simp_all add: Let_def)

lemma readWavDataAndPlay_block:
  fixes e clk s
  defines "ro \<equiv> readOld e s"
  defines "rn \<equiv> readNew e (snd ro)"
  defines "n \<equiv> max (length (fst ro) div 2) (length (fst rn) div 2)"
  shows "fst (readWavDataAndPlay e clk s) = (0 < n)"
    and "length (fst (snd (readWavDataAndPlay e clk s))) = n"
    and "map fst (fst (snd (readWavDataAndPlay e clk s))) =
           map (\<lambda>i. cast_int16 (leftMixed (snd rn) (bufVal (fst ro) i) (bufVal (fst rn) i))) [0..<n]"
proof -
  show "fst (readWavDataAndPlay e clk s) = (0 < n)"
  proof (cases "\<not> file_ok s (oldFile s) \<and> \<not> file_ok s (newFile s)")
    case True
    then show ?thesis
      by (simp add: readWavDataAndPlay_def n_def ro_def rn_def readOld_not_ok readNew_not_ok)
  next
    case False
    then show ?thesis
      unfolding readWavDataAndPlay_def Let_def n_def ro_def rn_def by auto
  qed
  show "length (fst (snd (readWavDataAndPlay e clk s))) = n"
  proof (cases "\<not> file_ok s (oldFile s) \<and> \<not> file_ok s (newFile s)")
    case True
    then show ?thesis
      by (simp add: readWavDataAndPlay_def n_def ro_def rn_def readOld_not_ok readNew_not_ok)
  next
    case False
    then show ?thesis
      unfolding readWavDataAndPlay_def Let_def n_def ro_def rn_def
      by (auto simp: mixLoop_length)
  qed
  show "map fst (fst (snd (readWavDataAndPlay e clk s))) =
           map (\<lambda>i. cast_int16 (leftMixed (snd rn) (bufVal (fst ro) i) (bufVal (fst rn) i))) [0..<n]"
  proof (cases "\<not> file_ok s (oldFile s) \<and> \<not> file_ok s (newFile s)")
    case True
    then show ?thesis
      by (simp add: readWavDataAndPlay_def n_def ro_def rn_def readOld_not_ok readNew_not_ok)
  next
    case False
    then show ?thesis
      unfolding readWavDataAndPlay_def Let_def n_def ro_def rn_def
      by (auto simp: mixLoop_left)
  qed
qed

lemma bufVal_beyond: "length bs div 2 \<le> i \<Longrightarrow> bufVal bs i = 0"
  by (simp add: bufVal_def)

lemma set_cursor_idem: "set_cursor h c (set_cursor h c tab) = set_cursor h c tab"
  by (induction tab) (auto simp: set_cursor_def)

lemma vars_file_read:
  "oldFile (snd (file_read e h n s)) = oldFile s" "newFile (snd (file_read e h n s)) = newFile s"
  by (simp_all add: file_read_def Let_def split: option.splits)

lemma set_refs: "set (refs s tmp) = set_option (oldFile s) \<union> set_option (newFile s) \<union> set_option tmp"
  by (auto simp: refs_def split: option.splits)

lemma inv_tmp_alt:
  "inv_tmp tmp s =
    (distinct (map fst (openTab s)) \<and>
     (\<forall>h \<in> keys s. (oldFile s = Some h \<or> newFile s = Some h \<or> tmp = Some h) \<and>
        h < nextHandle s \<and> h \<notin> set (closeLog s)) \<and>
     (\<forall>h \<in> set (closeLog s). h < nextHandle s) \<and>
     distinct (closeLog s))"
  by (auto simp: inv_tmp_def keys_def list_all_iff set_refs)

lemma is_open_keys: "is_open s h = (h \<in> keys s)"
  by (simp add: is_open_def keys_def map_of_eq_None_iff)

lemma keys_file_close: "keys (file_close h s) = keys s - {h}"
  by (auto simp: file_close_def keys_def is_open_def map_of_eq_None_iff image_iff)

lemma distinct_file_close:
  "distinct (map fst (openTab s)) \<Longrightarrow> distinct (map fst (openTab (file_close h s)))"
  by (simp add: file_close_def distinct_map_filter)

lemma closeLog_file_close:
  "closeLog (file_close h s) = (if h \<in> keys s then closeLog s @ [h] else closeLog s)"
  by (simp add: file_close_def is_open_keys)

lemma misc_file_close:
  "nextHandle (file_close h s) = nextHandle s"
  "oldFile (file_close h s) = oldFile s" "newFile (file_close h s) = newFile s"
  by (simp_all add: file_close_def)

lemma inv_file_close:
  assumes "inv_tmp tmp s"
  shows "inv_tmp tmp (file_close h s)"
  using assms unfolding inv_tmp_alt
  by (auto simp: keys_file_close distinct_file_close closeLog_file_close misc_file_close)

lemma length_le_refs:
  assumes "inv_tmp tmp s"
  shows "length (openTab s) \<le> length (refs s tmp)"
proof -
  have d: "distinct (map fst (openTab s))" using assms by (simp add: inv_tmp_def)
  have "set (map fst (openTab s)) \<subseteq> set (refs s tmp)"
    using assms by (auto simp: inv_tmp_def list_all_iff)
  then have "card (set (map fst (openTab s))) \<le> card (set (refs s tmp))"
    by (intro card_mono) simp_all
  moreover have "card (set (map fst (openTab s))) = length (openTab s)"
    using d distinct_card[of "map fst (openTab s)"] by simp
  moreover have "card (set (refs s tmp)) = length (refs s tmp)"
  proof -
    have "distinct (refs s tmp)" unfolding refs_def by (rule distinct_remdups)
    then show ?thesis by (rule distinct_card)
  qed
  ultimately show ?thesis by simp
qed

lemma refs_none_le2: "length (refs s None) \<le> 2"
  by (simp add: refs_def split: option.splits)

lemma refs_same_le2: "oldFile s = newFile s \<Longrightarrow> length (refs s tmp) \<le> 2"
  by (simp add: refs_def split: option.splits)

lemma store_inv_le2: "store_inv s \<Longrightarrow> length (openTab s) \<le> 2"
  using length_le_refs[of None s] refs_none_le2[of s] by (simp add: store_inv_def)

text \<open>Assignments to the variables.\<close>

lemma keys_release:
  "keys (release p s) =
    (case p of None \<Rightarrow> keys s
     | Some h \<Rightarrow> if oldFile s = Some h \<or> newFile s = Some h then keys s else keys s - {h})"
  by (auto simp: release_def keys_file_close split: option.splits)

lemma inv_release:
  assumes "inv_tmp tmp s"
  shows "inv_tmp tmp (release p s)"
  using assms by (simp add: release_def inv_file_close split: option.splits)

lemma inv_set_newFile:
  assumes "inv_tmp tmp s" and "tmp = None \<or> tmp = v"
  shows "inv_tmp None (set_newFile v s)"
proof -
  let ?s1 = "s\<lparr>newFile := v\<rparr>"
  have 1: "inv_tmp (newFile s) ?s1"
    using assms unfolding inv_tmp_alt by (auto simp: keys_def)
  have 2: "inv_tmp (newFile s) (release (newFile s) ?s1)" using 1 by (rule inv_release)
  show ?thesis
    using 2 unfolding set_newFile_def inv_tmp_alt
    by (auto simp: keys_release vars_release closeLog_file_close split: option.splits if_splits)
qed

lemma inv_set_oldFile:
  assumes "inv_tmp tmp s" and "tmp = None \<or> tmp = v"
  shows "inv_tmp None (set_oldFile v s)"
proof -
  let ?s1 = "s\<lparr>oldFile := v\<rparr>"
  have 1: "inv_tmp (oldFile s) ?s1"
    using assms unfolding inv_tmp_alt by (auto simp: keys_def)
  have 2: "inv_tmp (oldFile s) (release (oldFile s) ?s1)" using 1 by (rule inv_release)
  show ?thesis
    using 2 unfolding set_oldFile_def inv_tmp_alt
    by (auto simp: keys_release vars_release closeLog_file_close split: option.splits if_splits)
qed

lemma inv_sd_open:
  assumes "inv_tmp None s"
  shows "inv_tmp (fst (sd_open e p s)) (snd (sd_open e p s))"
proof (cases "sd e p")
  case None
  then show ?thesis using assms by (simp add: sd_open_fail)
next
  case (Some d)
  have fresh: "nextHandle s \<notin> keys s" using assms unfolding inv_tmp_alt by auto
  have k: "keys (s\<lparr>openTab := (nextHandle s, \<lparr>path = p, cursor = 0\<rparr>) # openTab s,
        nextHandle := Suc (nextHandle s)\<rparr>) = insert (nextHandle s) (keys s)"
    by (simp add: keys_def)
  show ?thesis
    using assms fresh unfolding sd_open_ok[OF Some] inv_tmp_alt k
    by (auto simp: keys_def less_Suc_eq)
qed

lemma vars_sd_open:
  "oldFile (snd (sd_open e p s)) = oldFile s" "newFile (snd (sd_open e p s)) = newFile s"
  by (simp_all add: sd_open_def split: option.splits)

lemma length_sd_open: "length (openTab (snd (sd_open e p s))) \<le> Suc (length (openTab s))"
  by (simp add: sd_open_def split: option.splits)

lemma map_fst_set_cursor: "map fst (set_cursor h c tab) = map fst tab"
  by (induction tab) (simp_all add: set_cursor_def)

lemma inv_file_read: "inv_tmp tmp (snd (file_read e h n s)) = inv_tmp tmp s"
  by (simp add: file_read_def Let_def inv_tmp_def refs_def map_fst_set_cursor split: option.splits)

lemma inv_file_seek: "inv_tmp tmp (file_seek h c s) = inv_tmp tmp s"
  by (simp add: file_seek_def inv_tmp_def refs_def map_fst_set_cursor)

lemma length_file_read: "length (openTab (snd (file_read e h n s))) = length (openTab s)"
  by (simp add: file_read_def Let_def set_cursor_def split: option.splits)

lemma inv_upd:
  "inv_tmp tmp (s\<lparr>crossfadeActive := b\<rparr>) = inv_tmp tmp s"
  "inv_tmp tmp (s\<lparr>playingFileIndex := i\<rparr>) = inv_tmp tmp s"
  "inv_tmp tmp (s\<lparr>crossfadeSamples := w\<rparr>) = inv_tmp tmp s"
  "inv_tmp tmp (s\<lparr>crossfadeProgress := w\<rparr>) = inv_tmp tmp s"
  "inv_tmp tmp (s\<lparr>waitingToPlay := b\<rparr>) = inv_tmp tmp s"
  by (simp_all add: inv_tmp_def refs_def)

text \<open>After the two closes of \<^verbatim>\<open>startPlaying\<close> nothing is open.\<close>

lemma closed_both:
  assumes "inv_tmp None s"
  defines "s1 \<equiv> (if file_ok s (oldFile s) then file_close (the (oldFile s)) s else s)"
  defines "s2 \<equiv> (if file_ok s1 (newFile s1) then file_close (the (newFile s1)) s1 else s1)"
  shows "openTab s2 = []" and "inv_tmp None s2" and "inv_tmp None s1" and "length (openTab s1) \<le> 2"
proof -
  show i1: "inv_tmp None s1" using assms(1) by (simp add: s1_def inv_file_close)
  show i2: "inv_tmp None s2" using i1 by (simp add: s2_def inv_file_close)
  show "length (openTab s1) \<le> 2" using i1 store_inv_le2[of s1] by (simp add: store_inv_def)
  have "keys s2 = {}"
  proof (rule ccontr)
    assume "keys s2 \<noteq> {}"
    then obtain k where k: "k \<in> keys s2" by auto
    have k1: "k \<in> keys s1" using k by (auto simp: s2_def keys_file_close split: if_splits)
    have k0: "k \<in> keys s" using k1 by (auto simp: s1_def keys_file_close split: if_splits)
    have r: "oldFile s = Some k \<or> newFile s = Some k"
      using assms(1) k0 unfolding inv_tmp_alt by auto
    have vars1: "oldFile s1 = oldFile s" "newFile s1 = newFile s"
      by (simp_all add: s1_def misc_file_close)
    show False
    proof (cases "oldFile s = Some k")
      case True
      then have "file_ok s (oldFile s)" using k0 by (simp add: file_ok_def is_open_keys)
      then have "k \<notin> keys s1" using True by (simp add: s1_def keys_file_close)
      with k1 show False by simp
    next
      case False
      with r have n: "newFile s = Some k" by simp
      then have "file_ok s1 (newFile s1)" using k1 by (simp add: file_ok_def is_open_keys vars1)
      then have "k \<notin> keys s2" using n by (simp add: s2_def keys_file_close vars1)
      with k show False by simp
    qed
  qed
  then show "openTab s2 = []" by (simp add: keys_def)
qed

lemma startPlaying_trace_le2:
  assumes "inv_tmp None s"
  shows "list_all (\<lambda>s'. length (openTab s') \<le> 2) (startPlaying_trace e i s)"
    and "inv_tmp None (last (startPlaying_trace e i s))"
proof -
  define s1 where "s1 = (if file_ok s (oldFile s) then file_close (the (oldFile s)) s else s)"
  define s2 where "s2 = (if file_ok s1 (newFile s1) then file_close (the (newFile s1)) s1 else s1)"
  define s3 where "s3 = s2\<lparr>crossfadeActive := False\<rparr>"
  define r where "r = sd_open e (fname_of s3 i) s3"
  define s5 where "s5 = set_newFile (fst r) (snd r)"
  define s6 where "s6 = snd (file_read e (the (newFile s5)) 44 s5)"
  note cb = closed_both[OF assms, folded s1_def, folded s2_def]
  have e3: "openTab s3 = []" and i3: "inv_tmp None s3" using cb by (simp_all add: s3_def inv_upd)
  have l4: "length (openTab (snd r)) \<le> 2"
    using length_sd_open[of e "fname_of s3 i" s3] by (simp add: r_def e3)
  have i4: "inv_tmp (fst r) (snd r)" unfolding r_def using i3 by (rule inv_sd_open)
  have i5: "inv_tmp None s5" unfolding s5_def using i4 by (rule inv_set_newFile) simp
  have l5: "length (openTab s5) \<le> 2" using i5 store_inv_le2[of s5] by (simp add: store_inv_def)
  have i6: "inv_tmp None s6" using i5 by (simp add: s6_def inv_file_read)
  have l6: "length (openTab s6) \<le> 2" using l5 by (simp add: s6_def length_file_read)
  have tr: "startPlaying_trace e i s =
    (if \<not> file_ok s5 (newFile s5) then [s1, s2, s3, snd r, s5]
     else [s1, s2, s3, snd r, s5, s6, s6\<lparr>playingFileIndex := i\<rparr>])"
    by (simp add: startPlaying_trace_def Let_def s1_def s2_def s3_def r_def s5_def s6_def)
  show "list_all (\<lambda>s'. length (openTab s') \<le> 2) (startPlaying_trace e i s)"
    using cb(4) cb(1) e3 l4 l5 l6 by (simp add: tr)
  show "inv_tmp None (last (startPlaying_trace e i s))"
    using i5 i6 by (simp add: tr inv_upd)
qed

lemma startCrossfade_trace_le2:
  assumes "inv_tmp None s"
  shows "list_all (\<lambda>s'. length (openTab s') \<le> 2) (startCrossfade_trace e i s)"
    and "inv_tmp None (last (startCrossfade_trace e i s))"
proof -
  define s1 where "s1 = set_oldFile (newFile s) s"
  define r where "r = sd_open e (fname_of s1 i) s1"
  define s3 where "s3 = set_newFile (fst r) (snd r)"
  define s4 where "s4 = set_newFile (oldFile s3) s3"
  define s5 where "s5 = set_oldFile None s4"
  define t4 where "t4 = snd (file_read e (the (newFile s3)) 44 s3)"
  define t5 where "t5 = t4\<lparr>crossfadeSamples := crossfadeTotal, crossfadeProgress := 0,
      crossfadeActive := True, playingFileIndex := i\<rparr>"
  have i1: "inv_tmp None s1" unfolding s1_def using assms by (rule inv_set_oldFile) simp
  have l1: "length (openTab s1) \<le> 2" using i1 store_inv_le2[of s1] by (simp add: store_inv_def)
  have i2: "inv_tmp (fst r) (snd r)" unfolding r_def using i1 by (rule inv_sd_open)
  have same: "oldFile (snd r) = newFile (snd r)"
    by (simp add: r_def vars_sd_open s1_def vars_set)
  have l2: "length (openTab (snd r)) \<le> 2"
    using length_le_refs[OF i2] refs_same_le2[OF same, of "fst r"] by simp
  have i3: "inv_tmp None s3" unfolding s3_def using i2 by (rule inv_set_newFile) simp
  have i4: "inv_tmp None s4" unfolding s4_def using i3 by (rule inv_set_newFile) simp
  have i5: "inv_tmp None s5" unfolding s5_def using i4 by (rule inv_set_oldFile) simp
  have j4: "inv_tmp None t4" using i3 by (simp add: t4_def inv_file_read)
  have j5: "inv_tmp None t5" using j4 by (simp add: t5_def inv_upd)
  note le = store_inv_le2[unfolded store_inv_def]
  have tr: "startCrossfade_trace e i s =
    (if \<not> file_ok s (newFile s) then startPlaying_trace e i s
     else if \<not> file_ok s3 (newFile s3) then [s1, snd r, s3, s4, s5]
     else [s1, snd r, s3, t4, t5])"
    by (simp add: startCrossfade_trace_def Let_def s1_def r_def s3_def s4_def s5_def t4_def t5_def)
  show "list_all (\<lambda>s'. length (openTab s') \<le> 2) (startCrossfade_trace e i s)"
    using startPlaying_trace_le2(1)[OF assms, of e i] l1 l2 le[OF i3] le[OF i4] le[OF i5]
      le[OF j4] le[OF j5]
    by (simp add: tr)
  show "inv_tmp None (last (startCrossfade_trace e i s))"
    using startPlaying_trace_le2(2)[OF assms, of e i] i5 j5 by (simp add: tr)
qed

lemma inv_tmp_view: "store_view s' = store_view s \<Longrightarrow> inv_tmp tmp s' = inv_tmp tmp s"
  by (simp add: store_view_def inv_tmp_def refs_def)

lemma store_view_ctl:
  "store_view (handleFootswitches inp s) = store_view s"
  "store_view (handleEncoder inp s) = store_view s"
  "store_view (updateMetronome t s) = store_view s"
  "store_view (snd (generateClickSample e t s)) = store_view s"
  by (simp_all add: store_view_def handleFootswitches_def nextFile_def prevFile_def
      toggleMetronome_def handleEncoder_def cycleTimeSignature_def updateMetronome_def
      generateClickSample_def Let_def)

lemma store_view_mixLoop: "store_view (snd (mixLoop e clk ob nb is s)) = store_view s"
  by (induction "is" arbitrary: s) (simp_all add: Let_def store_view_ctl)

lemma inv_assign:
  assumes "inv_tmp None s"
  shows "inv_tmp None (set_oldFile v s)" and "inv_tmp None (set_newFile v s)"
  using assms inv_set_oldFile[of None s v] inv_set_newFile[of None s v] by simp_all

lemma inv_readOld: "inv_tmp None s \<Longrightarrow> inv_tmp None (snd (readOld e s))"
  by (simp add: readOld_def Let_def inv_file_read inv_upd inv_assign inv_file_close)

lemma inv_readNew: "inv_tmp None s \<Longrightarrow> inv_tmp None (snd (readNew e s))"
  by (simp add: readNew_def Let_def inv_file_read inv_file_seek)

lemma inv_finishBlock: "inv_tmp None s \<Longrightarrow> inv_tmp None (finishBlock n s)"
  by (simp add: finishBlock_def Let_def inv_upd inv_assign inv_file_close)

lemma inv_readWavDataAndPlay:
  assumes "inv_tmp None s"
  shows "inv_tmp None (snd (snd (readWavDataAndPlay e clk s)))"
proof -
  have a: "inv_tmp None (snd (readNew e (snd (readOld e s))))"
    using assms by (simp add: inv_readOld inv_readNew)
  have b: "inv_tmp None (snd (mixLoop e clk ob nb is (snd (readNew e (snd (readOld e s))))))" for ob nb "is"
    using a inv_tmp_view[OF store_view_mixLoop] by simp
  show ?thesis
    using assms a b by (simp add: readWavDataAndPlay_def Let_def inv_finishBlock)
qed

lemma inv_afterAudio: "inv_tmp None s \<Longrightarrow> inv_tmp None (afterAudio ok s)"
  by (simp add: afterAudio_def inv_file_seek)

lemma inv_commitStep: "inv_tmp None s \<Longrightarrow> inv_tmp None (commitStep e t s)"
  using startCrossfade_trace_le2(2)[of s e "selectedFileIndex s"]
  by (simp add: commitStep_def startCrossfade_def inv_upd inv_tmp_def[of None "s\<lparr>lastBlinkToggle := t, showSelectedName := \<not> showSelectedName s\<rparr>"] refs_def)
    (simp add: inv_tmp_def refs_def)

lemma inv_loop:
  assumes "store_inv s"
  shows "store_inv (snd (loop e inp s))"
proof -
  have 1: "inv_tmp None (handleEncoder inp (handleFootswitches inp s))"
    using assms inv_tmp_view[OF store_view_ctl(2)] inv_tmp_view[OF store_view_ctl(1)]
    by (simp add: store_inv_def)
  have 2: "inv_tmp None (beforeCommit e inp s)"
    using 1 by (simp add: beforeCommit_def Let_def inv_afterAudio inv_readWavDataAndPlay)
  have 3: "inv_tmp None (commitStep e (tSelect inp) (beforeCommit e inp s))"
    using 2 by (rule inv_commitStep)
  show ?thesis
    using 3 inv_tmp_view[OF store_view_ctl(3)] by (simp add: loop_commit store_inv_def)
qed

lemma inv_run: "store_inv s \<Longrightarrow> list_all store_inv (run e inps s)"
  by (induction inps arbitrary: s) (simp_all add: inv_loop)

lemma inv_initial: "store_inv (initial fl inp)"
  by (simp add: store_inv_def inv_tmp_def initial_def)

lemma inv_setupSketch: "store_inv (setupSketch e fl inp)"
  using startPlaying_trace_le2(2)[of "initial fl inp" e 0] inv_initial[of fl inp]
  by (simp add: setupSketch_def startPlaying_def store_inv_def)


lemma keys_set_cursor: "fst ` set (set_cursor h c tab) = fst ` set tab"
  using map_fst_set_cursor[of h c tab] by (metis set_map)

lemma keys_file_read: "keys (snd (file_read e h n s)) = keys s"
  by (simp add: keys_def file_read_def Let_def keys_set_cursor split: option.splits)

lemma closeLog_file_read: "closeLog (snd (file_read e h n s)) = closeLog s"
  by (simp add: file_read_def Let_def split: option.splits)

text \<open>A request that arrives while a transition is active and whose target opens.\<close>

lemma startCrossfade_replaces:
  assumes "oldFile s = Some a" and "newFile s = Some b" and "a \<noteq> b"
    and "a \<in> keys s" and "b \<in> keys s" and "sd e (fname_of s i) = Some d"
    and "a \<noteq> nextHandle s"
  shows "oldFile (startCrossfade e i s) = Some b"
    and "newFile (startCrossfade e i s) = Some (nextHandle s)"
    and "a \<notin> keys (startCrossfade e i s)"
    and "b \<in> keys (startCrossfade e i s)"
    and "closeLog (startCrossfade e i s) = closeLog s @ [a]"
    and "crossfadeActive (startCrossfade e i s)"
    and "crossfadeProgress (startCrossfade e i s) = 0"
    and "crossfadeSamples (startCrossfade e i s) = crossfadeTotal"
    and "playingFileIndex (startCrossfade e i s) = i"
proof -
  define s0 where "s0 = s\<lparr>oldFile := Some b\<rparr>"
  define s1 where "s1 = file_close a s0"
  define s2 where "s2 = s1\<lparr>openTab := (nextHandle s1, \<lparr>path = fname_of s i, cursor = 0\<rparr>) # openTab s1,
        nextHandle := Suc (nextHandle s1)\<rparr>"
  define s3 where "s3 = s2\<lparr>newFile := Some (nextHandle s)\<rparr>"
  define t4 where "t4 = snd (file_read e (nextHandle s) 44 s3)"
  have ok: "file_ok s (newFile s)" using assms(2,5) by (simp add: file_ok_def is_open_keys)
  have k0: "keys s0 = keys s" by (simp add: s0_def keys_def)
  have e1: "set_oldFile (newFile s) s = s1"
    using assms(1,2,3) by (simp add: set_oldFile_def release_def s1_def s0_def)
  have v1: "oldFile s1 = Some b" "newFile s1 = Some b" "nextHandle s1 = nextHandle s"
    "closeLog s1 = closeLog s @ [a]" "keys s1 = keys s - {a}"
    using assms(2,4)
    by (simp_all add: s1_def misc_file_close closeLog_file_close keys_file_close k0) (simp_all add: s0_def)
  have fn: "fname_of s1 i = fname_of s i"
    by (simp add: s1_def s0_def fname_of_def file_close_def)
  have e2: "sd_open e (fname_of s1 i) s1 = (Some (nextHandle s), s2)"
    using assms(6) by (simp add: fn sd_open_ok s2_def v1)
  have k2: "keys s2 = insert (nextHandle s1) (keys s1)" by (simp add: s2_def keys_def)
  have v2: "oldFile s2 = Some b" "newFile s2 = Some b" "closeLog s2 = closeLog s @ [a]"
    "keys s2 = insert (nextHandle s) (keys s - {a})"
    using k2 by (simp_all add: s2_def v1)
  have e3: "set_newFile (Some (nextHandle s)) s2 = s3"
    by (simp add: set_newFile_def release_def v2 s3_def)
  have v3: "oldFile s3 = Some b" "newFile s3 = Some (nextHandle s)" "closeLog s3 = closeLog s @ [a]"
    "keys s3 = insert (nextHandle s) (keys s - {a})"
    using v2 by (simp_all add: s3_def keys_def)
  have ok3: "file_ok s3 (newFile s3)" by (simp add: v3 file_ok_def is_open_keys)
  have v4: "oldFile t4 = Some b" "newFile t4 = Some (nextHandle s)" "closeLog t4 = closeLog s @ [a]"
    "keys t4 = insert (nextHandle s) (keys s - {a})"
    using v3 by (simp_all add: t4_def vars_file_read keys_file_read closeLog_file_read)
  have tr: "startCrossfade e i s = t4\<lparr>crossfadeSamples := crossfadeTotal, crossfadeProgress := 0,
      crossfadeActive := True, playingFileIndex := i\<rparr>"
    using ok ok3
    by (simp add: startCrossfade_def startCrossfade_trace_def Let_def e1 e2 e3 t4_def v3)
  show "oldFile (startCrossfade e i s) = Some b" by (simp add: tr v4)
  show "newFile (startCrossfade e i s) = Some (nextHandle s)" by (simp add: tr v4)
  show "a \<notin> keys (startCrossfade e i s)"
    using v4(4) assms(7) by (auto simp: tr keys_def)
  show "b \<in> keys (startCrossfade e i s)"
    using v4(4) assms(3,5) by (auto simp: tr keys_def)
  show "closeLog (startCrossfade e i s) = closeLog s @ [a]" by (simp add: tr v4)
  show "crossfadeActive (startCrossfade e i s)" by (simp add: tr)
  show "crossfadeProgress (startCrossfade e i s) = 0" by (simp add: tr)
  show "crossfadeSamples (startCrossfade e i s) = crossfadeTotal" by (simp add: tr)
  show "playingFileIndex (startCrossfade e i s) = i" by (simp add: tr)
qed

lemma beatsPerMeasure_index:
  assumes "0 \<le> currentTimeSigIndex s" and "currentTimeSigIndex s < 3"
  shows "beatsPerMeasure s =
    (if currentTimeSigIndex s = 0 then 4 else if currentTimeSigIndex s = 1 then 3 else 6)"
proof -
  from assms have "currentTimeSigIndex s = 0 \<or> currentTimeSigIndex s = 1 \<or> currentTimeSigIndex s = 2"
    by linarith
  then show ?thesis by (auto simp: beatsPerMeasure_def timeSignatures_def)
qed

lemma timeSignatures_index:
  assumes "0 \<le> (i::int)" and "i < 3"
  shows "timeSignatures ! nat i = (if i = 0 then (4, 4) else if i = 1 then (3, 4) else (6, 8))"
proof -
  from assms have "i = 0 \<or> i = 1 \<or> i = 2" by linarith
  then show ?thesis by (auto simp: timeSignatures_def)
qed

lemma beatState_simps:
  "metronomeEnabled (beatState m bpm b t) = True"
  "currentBPM (beatState m bpm b t) = bpm"
  "currentTimeSigIndex (beatState m bpm b t) = m"
  "currentBeat (beatState m bpm b t) = b"
  "lastClickTime (beatState m bpm b t) = t"
  by (simp_all add: beatState_def demoStart_simp)


text \<open>
  A commit whose target cannot be opened: the playing index and the selected index are
  unchanged, the pending flag is cleared (nothing retries) and no file is opened; the
  incoming source stays open with its cursor where it was, the variable of the outgoing
  source is emptied, and the crossfade flag and counters are as before.
\<close>

lemma failed_open_rollback:
  assumes "waitingToPlay s" and "SELECT_TIMEOUT_MS \<le> now - lastInputTime s"
    and "sd e (fname_of s (selectedFileIndex s)) = None"
  shows "playingFileIndex (commitStep e now s) = playingFileIndex s \<and>
    selectedFileIndex (commitStep e now s) = selectedFileIndex s \<and>
    \<not> waitingToPlay (commitStep e now s) \<and>
    nextHandle (commitStep e now s) = nextHandle s \<and>
    (file_ok s (newFile s) \<longrightarrow>
       newFile (commitStep e now s) = newFile s \<and>
       file_ok (commitStep e now s) (newFile s) \<and>
       map_of (openTab (commitStep e now s)) (the (newFile s)) = map_of (openTab s) (the (newFile s)) \<and>
       oldFile (commitStep e now s) = None \<and>
       crossfadeActive (commitStep e now s) = crossfadeActive s \<and>
       crossfadeSamples (commitStep e now s) = crossfadeSamples s \<and>
       crossfadeProgress (commitStep e now s) = crossfadeProgress s)"
proof -
  have cs: "commitStep e now s = (startCrossfade e (selectedFileIndex s) s)\<lparr>waitingToPlay := False\<rparr>"
    using assms(1,2) by (simp add: commitStep_def)
  have a: "playingFileIndex (commitStep e now s) = playingFileIndex s \<and>
    selectedFileIndex (commitStep e now s) = selectedFileIndex s \<and>
    \<not> waitingToPlay (commitStep e now s) \<and>
    nextHandle (commitStep e now s) = nextHandle s"
    using assms by (simp add: commitStep_sel)
  have b: "newFile (commitStep e now s) = newFile s \<and>
       file_ok (commitStep e now s) (newFile s) \<and>
       map_of (openTab (commitStep e now s)) (the (newFile s)) = map_of (openTab s) (the (newFile s)) \<and>
       oldFile (commitStep e now s) = None \<and>
       crossfadeActive (commitStep e now s) = crossfadeActive s \<and>
       crossfadeSamples (commitStep e now s) = crossfadeSamples s \<and>
       crossfadeProgress (commitStep e now s) = crossfadeProgress s" if ok: "file_ok s (newFile s)"
  proof -
    note f = startCrossfade_fail[OF ok assms(3)]
    obtain b where b: "newFile s = Some b" using ok by (auto simp: file_ok_def split: option.splits)
    have "is_open s b" using ok b by (simp add: file_ok_def)
    then have "is_open (commitStep e now s) b"
      using f(3) by (simp add: cs is_open_def b)
    then have "file_ok (commitStep e now s) (newFile s)" by (simp add: file_ok_def b)
    then show ?thesis using f by (simp add: cs)
  qed
  from a b show ?thesis by blast
qed

text \<open>
  The outgoing source at its end: a read that returns no byte closes it, empties the
  variable and ends the crossfade; its cursor is not moved back.
\<close>

lemma outgoing_source_closed_at_end:
  assumes "oldFile s = Some a" and "map_of (openTab s) a = Some f"
    and "sd e (path f) = Some d" and "length d \<le> cursor f"
  shows "fst (readOld e s) = [] \<and>
    oldFile (snd (readOld e s)) = None \<and>
    \<not> is_open (snd (readOld e s)) a \<and>
    closeLog (snd (readOld e s)) = closeLog s @ [a] \<and>
    \<not> crossfadeActive (snd (readOld e s))"
proof -
  have ok: "file_ok s (oldFile s)" using assms(1,2) by (simp add: file_ok_def is_open_def)
  let ?r = "snd (file_read e a (bufferSize * 2) s)"
  have bs: "fst (file_read e a (bufferSize * 2) s) = []"
    using file_read_bytes(1)[OF assms(2,3)] assms(4) by simp
  have tab: "map_of (openTab ?r) a = Some f"
    using file_read_bytes(2)[OF assms(2,3), of "bufferSize * 2"] assms(4) by simp
  have op: "is_open ?r a" using tab by (simp add: is_open_def)
  have old: "oldFile ?r = Some a" by (simp add: vars_file_read assms(1))
  have cl: "closeLog ?r = closeLog s" by (simp add: closeLog_file_read)
  let ?c = "file_close a ?r"
  have c1: "closeLog ?c = closeLog s @ [a]" using op cl by (simp add: file_close_def)
  have n1: "\<not> is_open ?c a"
    using op by (auto simp: file_close_def is_open_def map_of_eq_None_iff)
  have n2: "\<not> is_open (?c\<lparr>oldFile := None\<rparr>) a" using n1 by (simp add: is_open_def)
  have o1: "oldFile ?c = Some a" using old by (simp add: file_close_def)
  have "file_close a (?c\<lparr>oldFile := None\<rparr>) = ?c\<lparr>oldFile := None\<rparr>"
    using n2 by (simp add: file_close_def[of a "?c\<lparr>oldFile := None\<rparr>"])
  then have rel: "release (Some a) (?c\<lparr>oldFile := None\<rparr>) = ?c\<lparr>oldFile := None\<rparr>"
    by (simp add: release_def)
  have so: "set_oldFile None ?c = ?c\<lparr>oldFile := None\<rparr>"
    by (simp add: set_oldFile_def o1 rel)
  have ro: "readOld e s = ([], (?c\<lparr>oldFile := None\<rparr>)\<lparr>crossfadeActive := False\<rparr>)"
    using ok bs by (simp add: readOld_def Let_def assms(1) so)
  show ?thesis using n1 c1 by (simp add: ro is_open_def)
qed

section \<open>Progress of a crossfade\<close>










































section \<open>Claims\<close>

text \<open>
  Claim C4. For a tempo in [30,240] and each of the three meters 4/4, 3/4 and 6/8
  (numerators 4, 3 and 6), the running metronome fires a beat exactly when the time since
  the last beat has reached 60000/bpm milliseconds (the single-precision test of the
  sketch decides exactly that). A beat advances the beat counter, which wraps to 1 once
  it would exceed the numerator of the selected meter and so stays between 1 and that
  numerator, and the beat is accented exactly when the counter is 1. When no beat is due,
  or the metronome is switched off, the state is unchanged.
\<close>

theorem C4_beat_clock:
  assumes "30 \<le> currentBPM s" and "currentBPM s \<le> 240"
    and "0 \<le> currentTimeSigIndex s" and "currentTimeSigIndex s < 3"
    and "0 \<le> currentBeat s"
  shows "timeSignatures ! nat (currentTimeSigIndex s) =
      (if currentTimeSigIndex s = 0 then (4, 4) else if currentTimeSigIndex s = 1 then (3, 4) else (6, 8)) \<and>
    beatsPerMeasure s =
      (if currentTimeSigIndex s = 0 then 4 else if currentTimeSigIndex s = 1 then 3 else 6) \<and>
    (if metronomeEnabled s \<and>
        (60000 / of_int (currentBPM s) :: rat) \<le> of_nat (unat (now - lastClickTime s))
     then lastClickTime (updateMetronome now s) = now \<and>
          clickActive (updateMetronome now s) \<and>
          clickStartTime (updateMetronome now s) = now \<and>
          currentBeat (updateMetronome now s) =
            (if (if currentTimeSigIndex s = 0 then 4 else if currentTimeSigIndex s = 1 then 3 else 6)
                  < currentBeat s + 1
             then 1 else currentBeat s + 1) \<and>
          1 \<le> currentBeat (updateMetronome now s) \<and>
          currentBeat (updateMetronome now s) \<le>
            (if currentTimeSigIndex s = 0 then 4 else if currentTimeSigIndex s = 1 then 3 else 6) \<and>
          accentBeat (updateMetronome now s) = (currentBeat (updateMetronome now s) = 1)
     else updateMetronome now s = s)"
proof -
  note due = beatDue_exact[OF assms(1,2), of now, symmetric]
  note bm = beatsPerMeasure_index[OF assms(3,4), symmetric]
  have ts: "timeSignatures ! nat (currentTimeSigIndex s) =
      (if currentTimeSigIndex s = 0 then (4, 4) else if currentTimeSigIndex s = 1 then (3, 4) else (6, 8))"
    by (rule timeSignatures_index[OF assms(3,4)])
  have b1: "1 \<le> beatsPerMeasure s" using beatsPerMeasure_cases[OF assms(3,4)] by auto
  have rest: "(if metronomeEnabled s \<and>
        (60000 / of_int (currentBPM s) :: rat) \<le> of_nat (unat (now - lastClickTime s))
     then lastClickTime (updateMetronome now s) = now \<and>
          clickActive (updateMetronome now s) \<and>
          clickStartTime (updateMetronome now s) = now \<and>
          currentBeat (updateMetronome now s) =
            (if beatsPerMeasure s < currentBeat s + 1 then 1 else currentBeat s + 1) \<and>
          1 \<le> currentBeat (updateMetronome now s) \<and>
          currentBeat (updateMetronome now s) \<le> beatsPerMeasure s \<and>
          accentBeat (updateMetronome now s) = (currentBeat (updateMetronome now s) = 1)
     else updateMetronome now s = s)"
    unfolding due using assms(5) b1 by (simp add: updateMetronome_def Let_def)
  show ?thesis using ts bm rest by (simp only: simp_thms)
qed

text \<open>
  At 120 bpm in 4/4 nothing fires at 499 ms and beat 1 fires accented at 500 ms; beat 2
  is unaccented and the beat after beat 4 is an accented beat 1. In 3/4 the beat after
  beat 3 is beat 1; in 6/8 beat 4 is followed by an unaccented beat 5, and beat 6 by beat
  1. At 90 bpm the beat is not due after 666 ms and fires after 667 ms. With the
  metronome switched off nothing fires.
\<close>

theorem C4_beat_witness:
  "30 \<le> currentBPM demoStart \<and> currentBPM demoStart \<le> 240 \<and>
   0 \<le> currentTimeSigIndex demoStart \<and> currentTimeSigIndex demoStart < 3 \<and>
   0 \<le> currentBeat demoStart \<and>
   currentTimeSigIndex (beatState 1 120 3 1500) = 1 \<and> currentBPM (beatState 1 120 3 1500) = 120 \<and>
   currentBeat (beatState 1 120 3 1500) = 3 \<and>
   currentTimeSigIndex (beatState 2 90 6 3000) = 2 \<and> currentBPM (beatState 2 90 6 3000) = 90 \<and>
   currentBeat (beatState 2 90 6 3000) = 6 \<and>
   updateMetronome 499 demoStart = demoStart \<and>
   currentBeat (updateMetronome 500 demoStart) = 1 \<and>
   accentBeat (updateMetronome 500 demoStart) \<and>
   currentBeat (updateMetronome 1000 (beatState 0 120 1 500)) = 2 \<and>
   accentBeat (updateMetronome 1000 (beatState 0 120 1 500)) = False \<and>
   currentBeat (updateMetronome 2500 (beatState 0 120 4 2000)) = 1 \<and>
   accentBeat (updateMetronome 2500 (beatState 0 120 4 2000)) \<and>
   beatsPerMeasure (beatState 1 120 3 1500) = 3 \<and>
   currentBeat (updateMetronome 2000 (beatState 1 120 3 1500)) = 1 \<and>
   accentBeat (updateMetronome 2000 (beatState 1 120 3 1500)) \<and>
   beatsPerMeasure (beatState 2 120 4 2000) = 6 \<and>
   currentBeat (updateMetronome 2500 (beatState 2 120 4 2000)) = 5 \<and>
   accentBeat (updateMetronome 2500 (beatState 2 120 4 2000)) = False \<and>
   updateMetronome 3666 (beatState 2 90 6 3000) = beatState 2 90 6 3000 \<and>
   currentBeat (updateMetronome 3667 (beatState 2 90 6 3000)) = 1 \<and>
   accentBeat (updateMetronome 3667 (beatState 2 90 6 3000)) \<and>
   lastClickTime (updateMetronome 3667 (beatState 2 90 6 3000)) = 3667 \<and>
   updateMetronome 500 (demoStart\<lparr>metronomeEnabled := False\<rparr>) = demoStart\<lparr>metronomeEnabled := False\<rparr>"
proof -
  let ?off = "demoStart\<lparr>metronomeEnabled := False\<rparr>"
  have h: "30 \<le> currentBPM demoStart" "currentBPM demoStart \<le> 240"
    "0 \<le> currentTimeSigIndex demoStart" "currentTimeSigIndex demoStart < 3"
    "0 \<le> currentBeat demoStart"
    by (simp_all add: demoStart_simp)
  have ho: "30 \<le> currentBPM ?off" "currentBPM ?off \<le> 240"
    "0 \<le> currentTimeSigIndex ?off" "currentTimeSigIndex ?off < 3" "0 \<le> currentBeat ?off"
    by (simp_all add: demoStart_simp)
  have v: "currentTimeSigIndex (beatState 1 120 3 1500) = 1 \<and> currentBPM (beatState 1 120 3 1500) = 120 \<and>
    currentBeat (beatState 1 120 3 1500) = 3 \<and>
    currentTimeSigIndex (beatState 2 90 6 3000) = 2 \<and> currentBPM (beatState 2 90 6 3000) = 90 \<and>
    currentBeat (beatState 2 90 6 3000) = 6"
    by (simp add: beatState_simps)
  have a: "updateMetronome 499 demoStart = demoStart"
    using C4_beat_clock[OF h, of 499] by (simp add: demoStart_simp)
  have b: "currentBeat (updateMetronome 500 demoStart) = 1 \<and> accentBeat (updateMetronome 500 demoStart)"
    using C4_beat_clock[OF h, of 500] by (simp add: demoStart_simp)
  have c: "currentBeat (updateMetronome 1000 (beatState 0 120 1 500)) = 2 \<and>
    accentBeat (updateMetronome 1000 (beatState 0 120 1 500)) = False"
    using C4_beat_clock[of "beatState 0 120 1 500" 1000] by (simp add: beatState_simps)
  have d: "currentBeat (updateMetronome 2500 (beatState 0 120 4 2000)) = 1 \<and>
    accentBeat (updateMetronome 2500 (beatState 0 120 4 2000))"
    using C4_beat_clock[of "beatState 0 120 4 2000" 2500] by (simp add: beatState_simps)
  have e: "beatsPerMeasure (beatState 1 120 3 1500) = 3 \<and>
    currentBeat (updateMetronome 2000 (beatState 1 120 3 1500)) = 1 \<and>
    accentBeat (updateMetronome 2000 (beatState 1 120 3 1500))"
    using C4_beat_clock[of "beatState 1 120 3 1500" 2000] by (simp add: beatState_simps)
  have f: "beatsPerMeasure (beatState 2 120 4 2000) = 6 \<and>
    currentBeat (updateMetronome 2500 (beatState 2 120 4 2000)) = 5 \<and>
    accentBeat (updateMetronome 2500 (beatState 2 120 4 2000)) = False"
    using C4_beat_clock[of "beatState 2 120 4 2000" 2500] by (simp add: beatState_simps)
  have g: "updateMetronome 3666 (beatState 2 90 6 3000) = beatState 2 90 6 3000"
    using C4_beat_clock[of "beatState 2 90 6 3000" 3666] by (simp add: beatState_simps)
  have i: "currentBeat (updateMetronome 3667 (beatState 2 90 6 3000)) = 1 \<and>
    accentBeat (updateMetronome 3667 (beatState 2 90 6 3000)) \<and>
    lastClickTime (updateMetronome 3667 (beatState 2 90 6 3000)) = 3667"
    using C4_beat_clock[of "beatState 2 90 6 3000" 3667] by (simp add: beatState_simps)
  have j: "updateMetronome 500 ?off = ?off"
    using C4_beat_clock[OF ho, of 500] by simp
  from h v a b c d e f g i j show ?thesis by blast
qed

text \<open>
  Claim C9. Every encoder step changes the tempo by one and clamps it to [30,240], and
  no other operation of the loop changes it: along every run from a state with the tempo
  in range, the tempo stays in range.
\<close>

theorem C9_tempo_stays_in_range:
  assumes "30 \<le> currentBPM s" and "currentBPM s \<le> 240"
  shows "list_all (\<lambda>s'. 30 \<le> currentBPM s' \<and> currentBPM s' \<le> 240) (run e inps s) \<and>
    currentBPM (handleEncoder inp s) =
      (if encCLK inp \<noteq> lastEncoderCLK s
       then min 240 (max 30 (currentBPM s + (if encDT inp \<noteq> encCLK inp then 1 else - 1)))
       else currentBPM s)"
  using assms run_bpm_range[of s e inps] handleEncoder_bpm[of inp s]
  by (simp add: minBPM_def maxBPM_def)

text \<open>At 240 bpm a further step up leaves the tempo at 240.\<close>

theorem C9_tempo_witness:
  "30 \<le> currentBPM ((initial [] idle)\<lparr>currentBPM := 240\<rparr>) \<and>
   currentBPM ((initial [] idle)\<lparr>currentBPM := 240\<rparr>) \<le> 240 \<and>
   currentBPM (handleEncoder turnUp ((initial [] idle)\<lparr>currentBPM := 240\<rparr>)) = 240 \<and>
   list_all (\<lambda>s'. 30 \<le> currentBPM s' \<and> currentBPM s' \<le> 240)
     (run demoEnv [turnUp, idle, turnUp] ((initial [] idle)\<lparr>currentBPM := 240\<rparr>))"
proof -
  let ?s = "(initial [] idle)\<lparr>currentBPM := 240\<rparr>"
  have h1: "30 \<le> currentBPM ?s" and h2: "currentBPM ?s \<le> 240" by simp_all
  have l: "lastEncoderCLK ?s = True" by (simp add: initial_def idle_def)
  from C9_tempo_stays_in_range[OF h1 h2, of demoEnv "[turnUp, idle, turnUp]" turnUp]
  show ?thesis using l by (simp add: turnUp_def idle_def)
qed

text \<open>
  Claim C10. Switching the metronome off deactivates the click voice at once; "metronome
  disabled implies no active click voice" is preserved by every pass of the loop; and
  while the metronome is disabled every click sample, and so the right channel of every
  block, is 0.
\<close>

theorem C10_disabled_metronome_is_silent:
  assumes "click_inv s"
  shows "click_inv (toggleMetronome s) \<and>
    (metronomeEnabled s \<longrightarrow>
       \<not> metronomeEnabled (toggleMetronome s) \<and> \<not> clickActive (toggleMetronome s)) \<and>
    list_all click_inv (run e inps s) \<and>
    (\<not> metronomeEnabled s \<longrightarrow> generateClickSample e t s = (0, s)) \<and>
    (\<not> metronomeEnabled (handleFootswitches inp s) \<longrightarrow>
       list_all (\<lambda>f. snd f = 0) (fst (loop e inp s)))"
proof -
  have a: "click_inv (toggleMetronome s)" by (rule toggleMetronome_inv)
  have b: "metronomeEnabled s \<longrightarrow>
       \<not> metronomeEnabled (toggleMetronome s) \<and> \<not> clickActive (toggleMetronome s)"
    by (simp add: toggleMetronome_def Let_def)
  have c: "list_all click_inv (run e inps s)" using assms by (rule run_inv)
  have d: "\<not> metronomeEnabled s \<longrightarrow> generateClickSample e t s = (0, s)"
    using assms by (simp add: click_inv_def generateClickSample_quiet)
  have f: "\<not> metronomeEnabled (handleFootswitches inp s) \<longrightarrow>
       list_all (\<lambda>f. snd f = 0) (fst (loop e inp s))"
    using assms by (simp add: loop_silent)
  from a b c d f show ?thesis by blast
qed

text \<open>
  A sounding click and a press of the metronome switch: the block of that pass carries
  the three samples of the track on the left and 0 on the right.
\<close>

theorem C10_disabled_witness:
  "click_inv (demoStart\<lparr>clickActive := True\<rparr>) \<and>
   \<not> clickActive (toggleMetronome (demoStart\<lparr>clickActive := True\<rparr>)) \<and>
   fst (loop demoEnv pressFS4 (demoStart\<lparr>clickActive := True\<rparr>)) =
     [(Some 1, 0), (Some 2, 0), (Some 3, 0)] \<and>
   list_all (\<lambda>f. snd f = 0) (fst (loop demoEnv pressFS4 (demoStart\<lparr>clickActive := True\<rparr>)))"
proof -
  let ?s = "demoStart\<lparr>clickActive := True\<rparr>"
  have h: "click_inv ?s" by (simp add: click_inv_def demoStart_simp)
  have en: "metronomeEnabled ?s" by (simp add: demoStart_simp)
  have off: "\<not> metronomeEnabled (handleFootswitches pressFS4 ?s)"
    by (simp add: demoStart_simp handleFootswitches_def pressFS4_def idle_def toggleMetronome_def Let_def)
  note t = C10_disabled_metronome_is_silent[OF h, of demoEnv "[]" 0 pressFS4]
  from t en have "\<not> clickActive (toggleMetronome ?s)" by blast
  moreover from t off have "list_all (\<lambda>f. snd f = 0) (fst (loop demoEnv pressFS4 ?s))" by blast
  moreover note h demo_block
  ultimately show ?thesis by blast
qed




text \<open>
  Claim C7 as stated fails. At 75% of a crossfade the frame (0, 1) mixes to 3/4, which the
  cast truncates to 0 where rounding to nearest gives 1; the frame (32767, 32767) mixes
  to 35224.5..., beyond the 16-bit range, where the cast is undefined and nothing clips
  the value to 32767.
\<close>

theorem C7_counterexample:
  "map fst (fst (snd (readWavDataAndPlay fadeEnv (\<lambda>i. 0) fadeState))) = [Some 0, None] \<and>
   fst (readOld fadeEnv fadeState) = [0, 0, 255, 127] \<and>
   fst (readNew fadeEnv (snd (readOld fadeEnv fadeState))) = [1, 0, 255, 127] \<and>
   leftMixed fadeState 0 1 = 3 / 4 \<and>
   spec_round_clip (leftMixed fadeState 0 1) = 1 \<and>
   leftMixed fadeState 32767 32767 = 9017479 / 256 \<and>
   spec_round_clip (leftMixed fadeState 32767 32767) = 32767"
  by (simp add: sketch_eval fade_defs spec_round_clip_def round_def Let_def upt_2
      cong: let_weak_cong)

text \<open>
  Claim C7, amended. The left sample of every frame is the single-precision sum
  \<open>oldVal*oldVol + newVal*newVol\<close> converted by the cast: when the sum lies strictly
  between -32769 and 32768 the sample is the sum truncated toward zero (so it is within 1
  of the sum and never larger in magnitude); outside that range the conversion is
  undefined and no clipping takes place.
\<close>

theorem C7_mixed_sample_is_truncated:
  "map fst (fst (mixLoop e clk ob nb is s)) =
     map (\<lambda>i. cast_int16 (leftMixed s (bufVal ob i) (bufVal nb i))) is \<and>
   leftMixed s oldVal newVal = fadd (fmul oldVal (oldVol s)) (fmul newVal (newVol s)) \<and>
   cast_int16 x = (if - 32769 < x \<and> x < 32768 then Some (word_of_int (trunc0 x)) else None) \<and>
   (- 32769 < x \<and> x < 32768 \<longrightarrow> sint (word_of_int (trunc0 x) :: 16 word) = trunc0 x) \<and>
   \<bar>of_int (trunc0 x)\<bar> \<le> \<bar>x\<bar> \<and> \<bar>x - of_int (trunc0 x)\<bar> < 1"
proof -
  have "- 32769 < x \<and> x < 32768 \<longrightarrow> sint (word_of_int (trunc0 x) :: 16 word) = trunc0 x"
    using trunc0_range[of x] sint_cast[of "trunc0 x"] by blast
  then show ?thesis
    by (simp add: mixLoop_left leftMixed_def cast_int16_def trunc0_bounds trunc0_range)
qed

text \<open>The frame (0, 1) at 75% of the crossfade: the sum 3/4 becomes the sample 0.\<close>

theorem C7_truncated_witness:
  "- 32769 < leftMixed fadeState 0 1 \<and> leftMixed fadeState 0 1 < 32768 \<and>
   leftMixed fadeState 0 1 = 3 / 4 \<and>
   cast_int16 (leftMixed fadeState 0 1) = Some 0 \<and>
   sint (word_of_int (trunc0 (leftMixed fadeState 0 1)) :: 16 word) = 0"
proof -
  have v: "leftMixed fadeState 0 1 = 3 / 4"
    by (simp add: sketch_eval fade_defs Let_def cong: let_weak_cong)
  have "\<lfloor>3 / 4 :: rat\<rfloor> = 0" by (simp add: floor_eq_iff)
  then have t: "trunc0 (3 / 4) = 0" by (simp add: trunc0_def)
  from C7_mixed_sample_is_truncated[of demoEnv "\<lambda>i. 0" "[]" "[]" "[]" fadeState 0 1 "3 / 4"]
  have "cast_int16 (3 / 4) = Some (word_of_int (trunc0 (3 / 4))) \<and>
     sint (word_of_int (trunc0 (3 / 4)) :: 16 word) = trunc0 (3 / 4)"
    by simp
  then show ?thesis by (simp add: v t)
qed

text \<open>
  Claim C8 as stated fails. Track 0 has three samples left: the read is short, the call
  reports success, and the block written has three frames. Nothing pads it to the 256
  frames of a cycle.
\<close>

theorem C8_counterexample:
  "fst (readNew demoEnv demoStart) = [1, 0, 2, 0, 3, 0] \<and>
   fst (readWavDataAndPlay demoEnv (\<lambda>i. 0) demoStart) = True \<and>
   map fst (fst (snd (readWavDataAndPlay demoEnv (\<lambda>i. 0) demoStart))) = [Some 1, Some 2, Some 3] \<and>
   length (pad_silence bufferSize [1, 2, 3]) = 256"
  by (simp add: sketch_eval demo_defs pad_silence_def Let_def upt_3 cong: let_weak_cong)

text \<open>
  Claim C8, amended. A short read is not an error. The block of a cycle has as many
  frames as the longer of the two reads delivers whole samples (at most 256, and none
  when neither delivers one, in which case the call returns false); it is not padded to
  the cycle size. Within the block a source contributes the value 0 to every frame
  beyond the samples it delivered.
\<close>

theorem C8_short_read_block:
  "fst (readWavDataAndPlay e clk s) =
     (0 < max (length (fst (readOld e s)) div 2)
              (length (fst (readNew e (snd (readOld e s)))) div 2)) \<and>
   length (fst (snd (readWavDataAndPlay e clk s))) =
     max (length (fst (readOld e s)) div 2) (length (fst (readNew e (snd (readOld e s)))) div 2) \<and>
   map fst (fst (snd (readWavDataAndPlay e clk s))) =
     map (\<lambda>i. cast_int16 (leftMixed (snd (readNew e (snd (readOld e s))))
                  (bufVal (fst (readOld e s)) i)
                  (bufVal (fst (readNew e (snd (readOld e s)))) i)))
       [0..<max (length (fst (readOld e s)) div 2)
                (length (fst (readNew e (snd (readOld e s)))) div 2)] \<and>
   length (fst (readOld e s)) \<le> 2 * bufferSize \<and>
   length (fst (readNew e (snd (readOld e s)))) \<le> 2 * bufferSize \<and>
   (length bs div 2 \<le> i \<longrightarrow> bufVal bs i = 0)"
  using readWavDataAndPlay_block[of e clk s] readOld_length[of e s]
    readNew_length[of e "snd (readOld e s)"] bufVal_beyond[of bs i]
  by blast

text \<open>
  A crossfade from a track with three samples left to one with two: the block has three
  frames, and in the third the incoming source counts as 0.
\<close>

theorem C8_short_read_witness:
  "fst (readOld demoEnv demoFade) = [1, 0, 2, 0, 3, 0] \<and>
   fst (readNew demoEnv (snd (readOld demoEnv demoFade))) = [1, 0, 255, 127] \<and>
   length [1, 0, 255, 127 :: 8 word] div 2 \<le> 2 \<and>
   bufVal [1, 0, 255, 127] 2 = 0 \<and>
   fst (readWavDataAndPlay demoEnv (\<lambda>i. 0) demoFade) = True \<and>
   length (fst (snd (readWavDataAndPlay demoEnv (\<lambda>i. 0) demoFade))) = 3 \<and>
   map fst (fst (snd (readWavDataAndPlay demoEnv (\<lambda>i. 0) demoFade))) = [Some 1, Some 2, Some 3]"
proof -
  have ro: "fst (readOld demoEnv demoFade) = [1, 0, 2, 0, 3, 0]"
    and rn: "fst (readNew demoEnv (snd (readOld demoEnv demoFade))) = [1, 0, 255, 127]"
    by (simp_all add: sketch_eval demo_defs Let_def cong: let_weak_cong)
  have h: "length [1, 0, 255, 127 :: 8 word] div 2 \<le> 2" by simp
  have v: "map fst (fst (snd (readWavDataAndPlay demoEnv (\<lambda>i. 0) demoFade))) = [Some 1, Some 2, Some 3]"
    by (simp add: sketch_eval demo_defs Let_def upt_3 cong: let_weak_cong)
  note t = C8_short_read_block[of demoEnv "\<lambda>i. 0" demoFade "[1, 0, 255, 127]" 2]
  from t h have b: "bufVal [1, 0, 255, 127] 2 = 0" by blast
  from t have "fst (readWavDataAndPlay demoEnv (\<lambda>i. 0) demoFade) = True \<and>
    length (fst (snd (readWavDataAndPlay demoEnv (\<lambda>i. 0) demoFade))) = 3"
    unfolding ro rn by simp
  with ro rn h b v show ?thesis by blast
qed

text \<open>
  Claim C3 as stated fails for the outgoing source. When the outgoing source of a
  crossfade returns zero bytes it is closed and the crossfade is ended; its cursor is not
  moved back and it does not loop.
\<close>

theorem C3_counterexample:
  "oldFile demoFadeAtEnd = Some 0 \<and>
   map_of (openTab demoFadeAtEnd) 0 = Some \<lparr>path = ''/a.wav'', cursor = 50\<rparr> \<and>
   crossfadeActive demoFadeAtEnd = True \<and>
   fst (readOld demoEnv demoFadeAtEnd) = [] \<and>
   map_of (openTab (snd (readOld demoEnv demoFadeAtEnd))) 0 = None \<and>
   oldFile (snd (readOld demoEnv demoFadeAtEnd)) = None \<and>
   closeLog (snd (readOld demoEnv demoFadeAtEnd)) = [0] \<and>
   crossfadeActive (snd (readOld demoEnv demoFadeAtEnd)) = False \<and>
   closeLog (snd (snd (readWavDataAndPlay demoEnv (\<lambda>i. 0) demoFadeAtEnd))) = [0]"
  by (simp add: sketch_eval demo_defs Let_def upt_3 upt_2 cong: let_weak_cong)

text \<open>
  Claim C3, amended to the incoming (or only) source. When its read returns zero bytes,
  the source stays open, contributes no frame to that call, and its cursor is set to
  byte 44, so that the next read returns the bytes from offset 44 on. With no outgoing
  source the call returns false and writes no block, and the seek that \<^verbatim>\<open>loop()\<close> then
  repeats changes nothing.
\<close>

theorem C3_incoming_source_loops:
  assumes "newFile s = Some h" and "map_of (openTab s) h = Some f"
    and "sd e (path f) = Some d" and "length d \<le> cursor f"
  shows "fst (readNew e s) = [] \<and>
    newFile (snd (readNew e s)) = Some h \<and>
    map_of (openTab (snd (readNew e s))) h = Some (f\<lparr>cursor := 44\<rparr>) \<and>
    fst (readNew e (snd (readNew e s))) = take (bufferSize * 2) (drop 44 d) \<and>
    (\<not> file_ok s (oldFile s) \<longrightarrow>
       readWavDataAndPlay e clk s = (False, [], snd (readNew e s)) \<and>
       afterAudio False (snd (readNew e s)) = snd (readNew e s))"
proof -
  have ok: "file_ok s (newFile s)" using assms(1,2) by (simp add: file_ok_def is_open_def)
  have bs: "fst (file_read e h (bufferSize * 2) s) = []"
    using file_read_bytes(1)[OF assms(2,3)] assms(4) by simp
  have tab: "map_of (openTab (snd (file_read e h (bufferSize * 2) s))) h = Some f"
    using file_read_bytes(2)[OF assms(2,3), of "bufferSize * 2"] assms(4) by simp
  have rn: "readNew e s = ([], file_seek h 44 (snd (file_read e h (bufferSize * 2) s)))"
    using ok bs by (simp add: readNew_def Let_def assms(1) prod_eq_iff)
  let ?s' = "file_seek h 44 (snd (file_read e h (bufferSize * 2) s))"
  have nf: "newFile ?s' = Some h" by (simp add: file_seek_def vars_file_read assms(1))
  have tab': "map_of (openTab ?s') h = Some (f\<lparr>cursor := 44\<rparr>)"
    by (simp add: file_seek_def map_of_set_cursor tab)
  have p: "path (f\<lparr>cursor := 44\<rparr>) = path f" "cursor (f\<lparr>cursor := 44\<rparr>) = 44" by simp_all
  have ok': "file_ok ?s' (newFile ?s')" using nf tab' by (simp add: file_ok_def is_open_def)
  have nx: "fst (readNew e ?s') = take (bufferSize * 2) (drop 44 d)"
    using file_read_bytes(1)[OF tab', of e d "bufferSize * 2"] assms(3) ok'
    by (simp add: readNew_bytes nf)
  have single: "readWavDataAndPlay e clk s = (False, [], ?s') \<and> afterAudio False ?s' = ?s'"
    if no: "\<not> file_ok s (oldFile s)"
  proof -
    have "readWavDataAndPlay e clk s = (False, [], ?s')"
      using no ok by (simp add: readWavDataAndPlay_def Let_def readOld_not_ok rn)
    moreover have "afterAudio False ?s' = ?s'"
      using ok' by (simp add: afterAudio_def nf) (simp add: file_seek_def set_cursor_idem)
    ultimately show ?thesis by simp
  qed
  show ?thesis using nf tab' nx single by (simp add: rn)
qed

text \<open>Track 0 of the small card at its end: the cursor returns to 44 and the next read
  delivers the three samples again.\<close>

theorem C3_incoming_witness:
  "newFile demoAtEnd = Some 0 \<and>
   map_of (openTab demoAtEnd) 0 = Some \<lparr>path = ''/a.wav'', cursor = 50\<rparr> \<and>
   sd demoEnv ''/a.wav'' = Some (replicate 44 0 @ [1, 0, 2, 0, 3, 0]) \<and>
   length (replicate 44 (0 :: 8 word) @ [1, 0, 2, 0, 3, 0]) \<le> 50 \<and>
   fst (readNew demoEnv demoAtEnd) = [] \<and>
   map_of (openTab (snd (readNew demoEnv demoAtEnd))) 0 = Some \<lparr>path = ''/a.wav'', cursor = 44\<rparr> \<and>
   fst (readNew demoEnv (snd (readNew demoEnv demoAtEnd))) = [1, 0, 2, 0, 3, 0]"
proof -
  have h: "newFile demoAtEnd = Some 0"
    "map_of (openTab demoAtEnd) 0 = Some \<lparr>path = ''/a.wav'', cursor = 50\<rparr>"
    by (simp_all add: sketch_eval demo_defs Let_def upt_3 cong: let_weak_cong)
  have d: "sd demoEnv (path \<lparr>path = ''/a.wav'', cursor = 50\<rparr>) = Some (replicate 44 0 @ [1, 0, 2, 0, 3, 0])"
    by (simp add: demoEnv_def demoCard_def)
  have l: "length (replicate 44 (0 :: 8 word) @ [1, 0, 2, 0, 3, 0]) \<le> cursor \<lparr>path = ''/a.wav'', cursor = 50\<rparr>"
    by simp
  from C3_incoming_source_loops[OF h d l, of "\<lambda>i. 0"]
  have "fst (readNew demoEnv demoAtEnd) = [] \<and>
    map_of (openTab (snd (readNew demoEnv demoAtEnd))) 0 = Some \<lparr>path = ''/a.wav'', cursor = 44\<rparr> \<and>
    fst (readNew demoEnv (snd (readNew demoEnv demoAtEnd))) = [1, 0, 2, 0, 3, 0]"
    by (simp add: bufferSize_def)
  with h d l show ?thesis by simp
qed

text \<open>
  Claim C2. From a state that satisfies the storage invariant (as the state after boot
  does), at most two files are open after every statement of \<^verbatim>\<open>startCrossfade\<close> and
  after every pass of the loop, whatever the requests. A request that arrives during a
  transition and whose target opens closes the outgoing source at once and starts a new
  transition, from progress 0, in which the previous incoming source is the outgoing one.
\<close>

theorem C2_at_most_two_open:
  assumes "store_inv s"
  shows "list_all (\<lambda>s'. length (openTab s') \<le> 2) (startCrossfade_trace e i s) \<and>
    store_inv (startCrossfade e i s) \<and>
    list_all (\<lambda>s'. store_inv s' \<and> length (openTab s') \<le> 2) (run e inps s) \<and>
    store_inv (setupSketch e fl inp) \<and>
    (oldFile s = Some a \<and> newFile s = Some b \<and> a \<noteq> b \<and> is_open s a \<and> is_open s b \<and>
     sd e (fname_of s i) \<noteq> None \<longrightarrow>
       \<not> is_open (startCrossfade e i s) a \<and>
       closeLog (startCrossfade e i s) = closeLog s @ [a] \<and>
       oldFile (startCrossfade e i s) = Some b \<and>
       is_open (startCrossfade e i s) b \<and>
       newFile (startCrossfade e i s) = Some (nextHandle s) \<and>
       crossfadeActive (startCrossfade e i s) \<and>
       crossfadeProgress (startCrossfade e i s) = 0 \<and>
       crossfadeSamples (startCrossfade e i s) = crossfadeTotal)"
proof -
  have i: "inv_tmp None s" using assms by (simp add: store_inv_def)
  have 1: "list_all (\<lambda>s'. length (openTab s') \<le> 2) (startCrossfade_trace e i s)"
    using i by (rule startCrossfade_trace_le2)
  have 2: "store_inv (startCrossfade e i s)"
    using startCrossfade_trace_le2(2)[OF i] by (simp add: store_inv_def startCrossfade_def)
  have "list_all store_inv (run e inps s)" using assms by (rule inv_run)
  then have 3: "list_all (\<lambda>s'. store_inv s' \<and> length (openTab s') \<le> 2) (run e inps s)"
    by (simp add: list_all_iff store_inv_le2)
  have 4: "store_inv (setupSketch e fl inp)" by (rule inv_setupSketch)
  have 5: "\<not> is_open (startCrossfade e i s) a \<and>
       closeLog (startCrossfade e i s) = closeLog s @ [a] \<and>
       oldFile (startCrossfade e i s) = Some b \<and>
       is_open (startCrossfade e i s) b \<and>
       newFile (startCrossfade e i s) = Some (nextHandle s) \<and>
       crossfadeActive (startCrossfade e i s) \<and>
       crossfadeProgress (startCrossfade e i s) = 0 \<and>
       crossfadeSamples (startCrossfade e i s) = crossfadeTotal"
    if h: "oldFile s = Some a \<and> newFile s = Some b \<and> a \<noteq> b \<and> is_open s a \<and> is_open s b \<and>
     sd e (fname_of s i) \<noteq> None"
  proof -
    from h obtain d where d: "sd e (fname_of s i) = Some d" by auto
    from h have p: "oldFile s = Some a" "newFile s = Some b" "a \<noteq> b" "a \<in> keys s" "b \<in> keys s"
      by (simp_all add: is_open_keys)
    have "a < nextHandle s" using i p(4) unfolding inv_tmp_alt by auto
    then have f: "a \<noteq> nextHandle s" by simp
    note r = startCrossfade_replaces[OF p d f]
    show ?thesis using r by (simp add: is_open_keys)
  qed
  from 1 2 3 4 5 show ?thesis by blast
qed

text \<open>
  A request for track 0 while the crossfade from track 0 to track 1 is active: the
  outgoing handle 0 is closed, handle 1 becomes the outgoing source, handle 2 is opened,
  and the table holds one, then two entries.
\<close>

theorem C2_two_open_witness:
  "store_inv demoFade \<and>
   oldFile demoFade = Some 0 \<and> newFile demoFade = Some 1 \<and> is_open demoFade 0 \<and>
   is_open demoFade 1 \<and> sd demoEnv (fname_of demoFade 0) \<noteq> None \<and>
   map (\<lambda>s'. length (openTab s')) (startCrossfade_trace demoEnv 0 demoFade) = [1, 2, 2, 2, 2] \<and>
   \<not> is_open (startCrossfade demoEnv 0 demoFade) 0 \<and>
   closeLog (startCrossfade demoEnv 0 demoFade) = [0] \<and>
   oldFile (startCrossfade demoEnv 0 demoFade) = Some 1 \<and>
   newFile (startCrossfade demoEnv 0 demoFade) = Some 2 \<and>
   crossfadeProgress (startCrossfade demoEnv 0 demoFade) = 0"
proof -
  have inv: "store_inv demoFade"
    by (simp add: store_inv_def inv_tmp_def refs_def sketch_eval demo_defs Let_def cong: let_weak_cong)
  have h: "oldFile demoFade = Some 0" "newFile demoFade = Some 1" "is_open demoFade 0"
    "is_open demoFade 1" "sd demoEnv (fname_of demoFade 0) \<noteq> None"
    "closeLog demoFade = []" "nextHandle demoFade = 2"
    by (simp_all add: sketch_eval demo_defs Let_def cong: let_weak_cong)
  have l: "map (\<lambda>s'. length (openTab s')) (startCrossfade_trace demoEnv 0 demoFade) = [1, 2, 2, 2, 2]"
    by (simp add: sketch_eval demo_defs Let_def cong: let_weak_cong)
  from C2_at_most_two_open[OF inv, of demoEnv 0 "[]" "[]" idle 0 1] h
  have "\<not> is_open (startCrossfade demoEnv 0 demoFade) 0 \<and>
    closeLog (startCrossfade demoEnv 0 demoFade) = [0] \<and>
    oldFile (startCrossfade demoEnv 0 demoFade) = Some 1 \<and>
    newFile (startCrossfade demoEnv 0 demoFade) = Some 2 \<and>
    crossfadeProgress (startCrossfade demoEnv 0 demoFade) = 0"
    by simp
  with inv h l show ?thesis by simp
qed




end
